theory Spec2Isabelle
  imports Complex_Main "HOL-Library.AList" "HOL-Library.Multiset"
begin

section \<open>Python values used by the inventory manager\<close>

text \<open>
  The inventory is a list of dictionaries read by \<^verbatim>\<open>csv.DictReader\<close>: every key and every
  value is a string, and the numeric fields are re-parsed with \<^verbatim>\<open>int(...)\<close> and
  \<^verbatim>\<open>float(...)\<close> at each use. A dictionary is an association list with distinct keys in
  insertion order, as Python keeps it. Strings are ASCII.
\<close>

type_synonym product = "(string \<times> string) list"

datatype py_error = KeyError string | ValueError | OverflowError

text \<open>\<^verbatim>\<open>d[k]\<close> raises KeyError when the key is missing.\<close>

definition getitem :: "product \<Rightarrow> string \<Rightarrow> py_error + string" where
  "getitem d k = (case map_of d k of None \<Rightarrow> Inl (KeyError k) | Some v \<Rightarrow> Inr v)"

text \<open>\<^verbatim>\<open>d[k] = v\<close> keeps the position of an existing key and appends a new one.\<close>

definition setitem :: "string \<Rightarrow> string \<Rightarrow> product \<Rightarrow> product" where
  "setitem k v d = AList.update k v d"

text \<open>\<^verbatim>\<open>d.update(u)\<close> stores the items of \<open>u\<close> one after the other.\<close>

definition dict_update :: "product \<Rightarrow> (string \<times> string) list \<Rightarrow> product" where
  "dict_update d u = foldl (\<lambda>acc (k, v). setitem k v acc) d u"

subsection \<open>Characters and strings\<close>

definition is_digit :: "char \<Rightarrow> bool" where
  "is_digit c = (48 \<le> (of_char c :: nat) \<and> (of_char c :: nat) \<le> 57)"

definition digit_val :: "char \<Rightarrow> nat" where
  "digit_val c = (of_char c :: nat) - 48"

definition digit_char :: "nat \<Rightarrow> char" where
  "digit_char d = char_of (48 + d)"

text \<open>The characters \<^verbatim>\<open>int\<close> and \<^verbatim>\<open>float\<close> skip around a number: tab, newline, vertical tab,
  form feed, carriage return and space.\<close>

definition is_space :: "char \<Rightarrow> bool" where
  "is_space c = ((9 \<le> (of_char c :: nat) \<and> (of_char c :: nat) \<le> 13) \<or> (of_char c :: nat) = 32)"

text \<open>\<^verbatim>\<open>str.strip()\<close> also removes the four separator controls 28 to 31.\<close>

definition is_strip_space :: "char \<Rightarrow> bool" where
  "is_strip_space c = (is_space c \<or> (28 \<le> (of_char c :: nat) \<and> (of_char c :: nat) \<le> 31))"

definition strip_with :: "(char \<Rightarrow> bool) \<Rightarrow> string \<Rightarrow> string" where
  "strip_with sp s = rev (dropWhile sp (rev (dropWhile sp s)))"

definition py_strip :: "string \<Rightarrow> string" where
  "py_strip s = strip_with is_strip_space s"

definition lower_char :: "char \<Rightarrow> char" where
  "lower_char c = (if 65 \<le> (of_char c :: nat) \<and> (of_char c :: nat) \<le> 90
                   then char_of ((of_char c :: nat) + 32) else c)"

definition py_lower :: "string \<Rightarrow> string" where
  "py_lower s = map lower_char s"

text \<open>\<^verbatim>\<open>k in s\<close> on strings: \<open>k\<close> occurs as a contiguous block of \<open>s\<close>.\<close>

fun is_prefix :: "string \<Rightarrow> string \<Rightarrow> bool" where
  "is_prefix [] s = True"
| "is_prefix (k # ks) [] = False"
| "is_prefix (k # ks) (c # cs) = (k = c \<and> is_prefix ks cs)"

fun py_in :: "string \<Rightarrow> string \<Rightarrow> bool" where
  "py_in k [] = is_prefix k []"
| "py_in k (c # cs) = (is_prefix k (c # cs) \<or> py_in k cs)"

subsection \<open>\<^verbatim>\<open>int(s)\<close> and \<^verbatim>\<open>str(n)\<close>\<close>

text \<open>
  A run of decimal digits in which single underscores may separate digits. The result is
  the value and the number of digits read; \<open>None\<close> is a malformed run.
\<close>

fun parse_digits_after :: "nat \<Rightarrow> nat \<Rightarrow> string \<Rightarrow> (nat \<times> nat) option" where
  "parse_digits_after acc cnt [] = Some (acc, cnt)"
| "parse_digits_after acc cnt [c] =
     (if is_digit c then Some (10 * acc + digit_val c, Suc cnt) else None)"
| "parse_digits_after acc cnt (c # d # cs) =
     (if is_digit c then parse_digits_after (10 * acc + digit_val c) (Suc cnt) (d # cs)
      else if c = CHR ''_'' \<and> is_digit d
           then parse_digits_after (10 * acc + digit_val d) (Suc cnt) cs
      else None)"

definition parse_digits :: "string \<Rightarrow> (nat \<times> nat) option" where
  "parse_digits s = (case s of [] \<Rightarrow> None
     | c # cs \<Rightarrow> if is_digit c then parse_digits_after (digit_val c) 1 cs else None)"

text \<open>
  \<^verbatim>\<open>int(s)\<close> for a string: surrounding whitespace, an optional sign, then the digits.
  \<open>None\<close> stands for the ValueError of a malformed literal. The interpreter's limit on the
  number of digits of a literal is a setting of the run time and is not modelled.
\<close>

definition py_int :: "string \<Rightarrow> int option" where
  "py_int s = (case strip_with is_space s of
       [] \<Rightarrow> None
     | c # cs \<Rightarrow>
         if c = CHR ''-'' then map_option (\<lambda>(n, _). - int n) (parse_digits cs)
         else if c = CHR ''+'' then map_option (\<lambda>(n, _). int n) (parse_digits cs)
         else map_option (\<lambda>(n, _). int n) (parse_digits (c # cs)))"

fun digits_of :: "nat \<Rightarrow> string" where
  "digits_of n = (if n < 10 then [digit_char n] else digits_of (n div 10) @ [digit_char (n mod 10)])"

declare digits_of.simps [simp del]

definition py_str :: "int \<Rightarrow> string" where
  "py_str i = (if i < 0 then CHR ''-'' # digits_of (nat (- i)) else digits_of (nat i))"

section \<open>The inventory manager\<close>

text \<open>
  What \<^verbatim>\<open>csv.DictWriter\<close> leaves in the data file: the header line and the rows, each
  a list of cells. The encoding of cells as text is the library's affair.
\<close>

record csv_file =
  header :: "string list"
  rows :: "string list list"

text \<open>The lines the manager and the command handlers print, without their decoration.\<close>

datatype message =
    NoDataToSave
  | SavedItems nat
  | ErrorSaving
  | AddedProduct string
  | UpdatedProduct string
  | ProductNotFound string
  | DeletedProduct string
  | CannotReduceBelowZero int int
  | QuantityUpdated int int
  | AllFieldsRequired
  | IdAlreadyExists string
  | ErrorAdding

text \<open>
  The state an operation works on: the list \<^verbatim>\<open>self.inventory\<close>, the content of the file at
  \<^verbatim>\<open>self.data_file\<close> (\<open>None\<close> while it does not exist) and the lines printed so far.
  Opening and writing the file are taken to succeed, and the path has a directory part,
  as the default \<^verbatim>\<open>data/warehouse_inventory.csv\<close> has, so that \<^verbatim>\<open>os.makedirs\<close> succeeds.
  Records are values: every element of the inventory is a dictionary of its own, as the
  loader and the command handlers make them.
\<close>

record state =
  inventory :: "product list"
  disk :: "csv_file option"
  console :: "message list"

definition print :: "message \<Rightarrow> state \<Rightarrow> state" where
  "print m s = s\<lparr>console := console s @ [m]\<rparr>"

text \<open>
  \<^verbatim>\<open>csv.DictReader\<close>: every row that is not empty becomes a dictionary from the header's
  names to the row's cells. Rows are as long as the header, as \<^verbatim>\<open>DictWriter\<close> writes them.
\<close>

definition read_dicts :: "csv_file \<Rightarrow> product list" where
  "read_dicts f = map (\<lambda>r. zip (header f) r) (filter (\<lambda>r. r \<noteq> []) (rows f))"

text \<open>
  \<^verbatim>\<open>DictWriter._dict_to_list\<close>: a key outside the field names raises ValueError, a missing
  field is written as the empty string.
\<close>

definition dict_to_list :: "string list \<Rightarrow> product \<Rightarrow> py_error + string list" where
  "dict_to_list fieldnames rowdict =
     (if \<exists>k \<in> set (map fst rowdict). k \<notin> set fieldnames then Inl ValueError
      else Inr (map (\<lambda>k. case map_of rowdict k of None \<Rightarrow> [] | Some v \<Rightarrow> v) fieldnames))"

text \<open>
  \<^verbatim>\<open>writerows\<close> writes row after row; the rows before a failing one are already in the
  file. The flag tells whether every row was written.
\<close>

fun writerows :: "string list \<Rightarrow> product list \<Rightarrow> string list list \<times> bool" where
  "writerows fieldnames [] = ([], True)"
| "writerows fieldnames (p # ps) =
     (case dict_to_list fieldnames p of
        Inl e \<Rightarrow> ([], False)
      | Inr r \<Rightarrow> (case writerows fieldnames ps of (rs, ok) \<Rightarrow> (r # rs, ok)))"

text \<open>
  \<^verbatim>\<open>save_inventory\<close> (lines 42 to 59). An empty inventory is not written: the method
  warns and returns. Otherwise the file is opened for writing, which empties it, the
  header is the first record's keys, and an exception while writing is caught and reported.
\<close>

definition save_inventory :: "state \<Rightarrow> state" where
  "save_inventory s =
     (case inventory s of
        [] \<Rightarrow> print NoDataToSave s
      | first # _ \<Rightarrow>
          (let fieldnames = map fst first in
           case writerows fieldnames (inventory s) of
             (rs, ok) \<Rightarrow>
               print (if ok then SavedItems (length (inventory s)) else ErrorSaving)
                 (s\<lparr>disk := Some \<lparr>header = fieldnames, rows = rs\<rparr>\<rparr>)))"

text \<open>
  \<^verbatim>\<open>add_product\<close> (lines 61 to 71). \<open>today\<close> is the date stamp
  \<^verbatim>\<open>datetime.now().strftime('%Y-%m-%d')\<close>. The method checks nothing.
\<close>

definition add_product :: "string \<Rightarrow> product \<Rightarrow> state \<Rightarrow> state" where
  "add_product today product_data s =
     (let product_data' = setitem ''last_updated'' today product_data;
          s1 = save_inventory (s\<lparr>inventory := inventory s @ [product_data']\<rparr>)
      in print (AddedProduct (case map_of product_data' ''product_name'' of
                                None \<Rightarrow> ''Unknown'' | Some n \<Rightarrow> n)) s1)"

text \<open>\<^verbatim>\<open>int(product[k])\<close>: KeyError for a missing key, ValueError for a malformed number.\<close>

definition int_field :: "product \<Rightarrow> string \<Rightarrow> py_error + int" where
  "int_field p k =
     (case getitem p k of
        Inl e \<Rightarrow> Inl e
      | Inr v \<Rightarrow> (case py_int v of None \<Rightarrow> Inl ValueError | Some n \<Rightarrow> Inr n))"

text \<open>\<^verbatim>\<open>get_product\<close> (lines 73 to 86): the first record whose id is equal, or None.\<close>

fun get_product :: "product list \<Rightarrow> string \<Rightarrow> py_error + product option" where
  "get_product [] product_id = Inr None"
| "get_product (p # ps) product_id =
     (case getitem p ''product_id'' of
        Inl e \<Rightarrow> Inl e
      | Inr i \<Rightarrow> if i = product_id then Inr (Some p) else get_product ps product_id)"

text \<open>
  The loop of \<^verbatim>\<open>update_product\<close> (lines 96 to 102): it stops at the first record whose
  id is equal, merges the updates into it and stamps it. \<open>None\<close>: the loop ran to its end.
\<close>

fun update_first :: "string \<Rightarrow> string \<Rightarrow> (string \<times> string) list \<Rightarrow> product list
    \<Rightarrow> py_error + product list option" where
  "update_first today product_id updates [] = Inr None"
| "update_first today product_id updates (p # ps) =
     (case getitem p ''product_id'' of
        Inl e \<Rightarrow> Inl e
      | Inr i \<Rightarrow>
          if i = product_id
          then Inr (Some (setitem ''last_updated'' today (dict_update p updates) # ps))
          else (case update_first today product_id updates ps of
                  Inl e \<Rightarrow> Inl e
                | Inr None \<Rightarrow> Inr None
                | Inr (Some ps') \<Rightarrow> Inr (Some (p # ps'))))"

definition update_product :: "string \<Rightarrow> string \<Rightarrow> (string \<times> string) list \<Rightarrow> state
    \<Rightarrow> py_error + bool \<times> state" where
  "update_product today product_id updates s =
     (case update_first today product_id updates (inventory s) of
        Inl e \<Rightarrow> Inl e
      | Inr None \<Rightarrow> Inr (False, print (ProductNotFound product_id) s)
      | Inr (Some inv') \<Rightarrow>
          Inr (True, print (UpdatedProduct product_id) (save_inventory (s\<lparr>inventory := inv'\<rparr>))))"

text \<open>The list comprehension of \<^verbatim>\<open>delete_product\<close> (line 114).\<close>

fun remove_id :: "string \<Rightarrow> product list \<Rightarrow> py_error + product list" where
  "remove_id product_id [] = Inr []"
| "remove_id product_id (p # ps) =
     (case getitem p ''product_id'' of
        Inl e \<Rightarrow> Inl e
      | Inr i \<Rightarrow>
          (case remove_id product_id ps of
             Inl e \<Rightarrow> Inl e
           | Inr ps' \<Rightarrow> Inr (if i \<noteq> product_id then p # ps' else ps')))"

text \<open>\<^verbatim>\<open>delete_product\<close> (lines 106 to 122).\<close>

definition delete_product :: "string \<Rightarrow> state \<Rightarrow> py_error + bool \<times> state" where
  "delete_product product_id s =
     (let initial_len = length (inventory s) in
      case remove_id product_id (inventory s) of
        Inl e \<Rightarrow> Inl e
      | Inr inv' \<Rightarrow>
          (let s1 = s\<lparr>inventory := inv'\<rparr> in
           if length (inventory s1) < initial_len
           then Inr (True, print (DeletedProduct product_id) (save_inventory s1))
           else Inr (False, print (ProductNotFound product_id) s1)))"

text \<open>
  \<^verbatim>\<open>update_quantity\<close> (lines 124 to 144). \<^verbatim>\<open>if product:\<close> is false for None and for an
  empty dictionary. The method returns True or False; the quantities are in the lines it
  prints.
\<close>

definition update_quantity :: "string \<Rightarrow> string \<Rightarrow> int \<Rightarrow> state \<Rightarrow> py_error + bool \<times> state" where
  "update_quantity today product_id quantity_change s =
     (case get_product (inventory s) product_id of
        Inl e \<Rightarrow> Inl e
      | Inr None \<Rightarrow> Inr (False, s)
      | Inr (Some product) \<Rightarrow>
          if product = [] then Inr (False, s)
          else (case int_field product ''quantity'' of
                  Inl e \<Rightarrow> Inl e
                | Inr current_qty \<Rightarrow>
                    (let new_qty = current_qty + quantity_change in
                     if new_qty < 0
                     then Inr (False, print (CannotReduceBelowZero current_qty quantity_change) s)
                     else (case update_product today product_id
                                  [(''quantity'', py_str new_qty)] s of
                             Inl e \<Rightarrow> Inl e
                           | Inr (_, s1) \<Rightarrow>
                               Inr (True, print (QuantityUpdated current_qty new_qty) s1)))))"

text \<open>\<^verbatim>\<open>get_low_stock_items\<close> (lines 146 to 157).\<close>

fun low_stock_loop :: "product list \<Rightarrow> product list \<Rightarrow> py_error + product list" where
  "low_stock_loop [] low_stock = Inr low_stock"
| "low_stock_loop (p # ps) low_stock =
     (case int_field p ''quantity'' of
        Inl e \<Rightarrow> Inl e
      | Inr q \<Rightarrow>
          (case int_field p ''reorder_level'' of
             Inl e \<Rightarrow> Inl e
           | Inr r \<Rightarrow> low_stock_loop ps (if q \<le> r then low_stock @ [p] else low_stock)))"

definition get_low_stock_items :: "product list \<Rightarrow> py_error + product list" where
  "get_low_stock_items recs = low_stock_loop recs []"

text \<open>
  \<^verbatim>\<open>search_products\<close> (lines 220 to 236). The category is read only when the name does
  not match.
\<close>

fun search_loop :: "string \<Rightarrow> product list \<Rightarrow> product list \<Rightarrow> py_error + product list" where
  "search_loop keyword_lower [] results = Inr results"
| "search_loop keyword_lower (p # ps) results =
     (case getitem p ''product_name'' of
        Inl e \<Rightarrow> Inl e
      | Inr name \<Rightarrow>
          if py_in keyword_lower (py_lower name)
          then search_loop keyword_lower ps (results @ [p])
          else (case getitem p ''category'' of
                  Inl e \<Rightarrow> Inl e
                | Inr cat \<Rightarrow>
                    if py_in keyword_lower (py_lower cat)
                    then search_loop keyword_lower ps (results @ [p])
                    else search_loop keyword_lower ps results))"

definition search_products :: "product list \<Rightarrow> string \<Rightarrow> py_error + product list" where
  "search_products recs keyword = search_loop (py_lower keyword) recs []"

section \<open>The command handler for adding a product\<close>

text \<open>The eight lines the user types at the prompts of \<^verbatim>\<open>handle_add_product\<close>.\<close>

record add_form =
  in_product_id :: string
  in_product_name :: string
  in_category :: string
  in_quantity :: string
  in_unit_price :: string
  in_reorder_level :: string
  in_supplier :: string
  in_warehouse_location :: string

definition form_data :: "add_form \<Rightarrow> product" where
  "form_data f =
     [(''product_id'', py_strip (in_product_id f)),
      (''product_name'', py_strip (in_product_name f)),
      (''category'', py_strip (in_category f)),
      (''quantity'', py_strip (in_quantity f)),
      (''unit_price'', py_strip (in_unit_price f)),
      (''reorder_level'', py_strip (in_reorder_level f)),
      (''supplier'', py_strip (in_supplier f)),
      (''warehouse_location'', py_strip (in_warehouse_location f))]"

text \<open>
  \<^verbatim>\<open>handle_add_product\<close> (cli.py, lines 95 to 124): every field must be non-empty, the
  id must not be in the inventory yet, and only then \<^verbatim>\<open>add_product\<close> is called. An
  exception of the lookup is caught and reported.
\<close>

definition handle_add_product :: "string \<Rightarrow> add_form \<Rightarrow> state \<Rightarrow> state" where
  "handle_add_product today f s =
     (let product_data = form_data f in
      if \<not> list_all (\<lambda>v. v \<noteq> []) (map snd product_data) then print AllFieldsRequired s
      else (case get_product (inventory s) (py_strip (in_product_id f)) of
              Inl e \<Rightarrow> print ErrorAdding s
            | Inr None \<Rightarrow> add_product today product_data s
            | Inr (Some found) \<Rightarrow>
                if found \<noteq> [] then print (IdAlreadyExists (py_strip (in_product_id f))) s
                else add_product today product_data s))"

section \<open>Floating-point numbers\<close>

text \<open>
  A Python float is a binary64 number: a finite value, one of the two infinities, or NaN.
  A finite value is kept as the rational it denotes. The two zeros are one value here:
  they compare equal and no operation below tells them apart.
\<close>

datatype double = Finite rat | PInf | NInf | NaN

text \<open>\<^verbatim>\<open>int.bit_length\<close> of a natural number.\<close>

fun bit_length :: "nat \<Rightarrow> nat" where
  "bit_length n = (if n = 0 then 0 else Suc (bit_length (n div 2)))"

declare bit_length.simps [simp del]

definition pow2 :: "int \<Rightarrow> rat" where
  "pow2 e = (if 0 \<le> e then 2 ^ nat e else 1 / 2 ^ nat (- e))"

definition pow10 :: "int \<Rightarrow> rat" where
  "pow10 e = (if 0 \<le> e then 10 ^ nat e else 1 / 10 ^ nat (- e))"

text \<open>For \<open>x > 0\<close>, the exponent \<open>e\<close> with \<open>2^e \<le> x < 2^(e+1)\<close>.\<close>

definition float_exponent :: "rat \<Rightarrow> int" where
  "float_exponent x =
     (case quotient_of x of
        (a, b) \<Rightarrow>
          (let d = int (bit_length (nat a)) - int (bit_length (nat b))
           in if pow2 d \<le> x then d else d - 1))"

definition round_half_even :: "rat \<Rightarrow> int" where
  "round_half_even x =
     (let f = \<lfloor>x\<rfloor>; r = x - of_int f
      in if r < 1 / 2 then f
         else if 1 / 2 < r then f + 1
         else if even f then f else f + 1)"

text \<open>
  The multiple of the unit in the last place that is nearest to \<open>x\<close>, ties to the even
  significand. The significand has 53 bits; below \<open>2^-1022\<close> the numbers are subnormal and
  the unit stays \<open>2^-1074\<close>, so that a small \<open>x\<close> rounds to 0.
\<close>

definition round_nearest :: "rat \<Rightarrow> rat" where
  "round_nearest x =
     (if x = 0 then 0
      else (let e = max (float_exponent \<bar>x\<bar> - 52) (- 1074);
                m = \<bar>x\<bar> / pow2 e
            in sgn x * of_int (round_half_even m) * pow2 e))"

text \<open>
  The double a real result is rounded to: a result that rounds to \<open>2^1024\<close> or beyond in
  magnitude overflows to an infinity.
\<close>

definition round_double :: "rat \<Rightarrow> double" where
  "round_double x =
     (let y = round_nearest x
      in if pow2 1024 \<le> y then PInf else if y \<le> - pow2 1024 then NInf else Finite y)"

text \<open>
  The conversion of an int in mixed arithmetic. It rounds to the nearest double and raises
  OverflowError (\<^verbatim>\<open>int too large to convert to float\<close>) where that is out of range.
\<close>

definition float_of_int :: "int \<Rightarrow> py_error + double" where
  "float_of_int i =
     (case round_double (of_int i) of
        Finite y \<Rightarrow> Inr (Finite y)
      | _ \<Rightarrow> Inl OverflowError)"

text \<open>
  \<^verbatim>\<open>a + b\<close> and \<^verbatim>\<open>a * b\<close> on floats. Neither raises: a finite result out of range is an
  infinity, and infinity minus infinity and zero times infinity are NaN.
\<close>

fun float_add :: "double \<Rightarrow> double \<Rightarrow> double" where
  "float_add (Finite x) (Finite y) = round_double (x + y)"
| "float_add NaN b = NaN"
| "float_add a NaN = NaN"
| "float_add PInf NInf = NaN"
| "float_add NInf PInf = NaN"
| "float_add PInf b = PInf"
| "float_add a PInf = PInf"
| "float_add NInf b = NInf"
| "float_add a NInf = NInf"

fun float_mul :: "double \<Rightarrow> double \<Rightarrow> double" where
  "float_mul (Finite x) (Finite y) = round_double (x * y)"
| "float_mul NaN b = NaN"
| "float_mul a NaN = NaN"
| "float_mul (Finite x) PInf = (if x = 0 then NaN else if 0 < x then PInf else NInf)"
| "float_mul (Finite x) NInf = (if x = 0 then NaN else if 0 < x then NInf else PInf)"
| "float_mul PInf (Finite y) = (if y = 0 then NaN else if 0 < y then PInf else NInf)"
| "float_mul NInf (Finite y) = (if y = 0 then NaN else if 0 < y then NInf else PInf)"
| "float_mul PInf PInf = PInf"
| "float_mul PInf NInf = NInf"
| "float_mul NInf PInf = NInf"
| "float_mul NInf NInf = PInf"

text \<open>\<^verbatim>\<open>a < b\<close> and \<^verbatim>\<open>a == b\<close> on floats: every comparison with NaN is false.\<close>

fun float_lt :: "double \<Rightarrow> double \<Rightarrow> bool" where
  "float_lt (Finite x) (Finite y) = (x < y)"
| "float_lt NaN b = False"
| "float_lt a NaN = False"
| "float_lt a NInf = False"
| "float_lt PInf b = False"
| "float_lt NInf b = True"
| "float_lt a PInf = True"

definition float_eq :: "double \<Rightarrow> double \<Rightarrow> bool" where
  "float_eq a b = (a \<noteq> NaN \<and> a = b)"

text \<open>
  \<^verbatim>\<open>i <= x\<close> for an int and a float. The comparison is exact: the int is not converted.
\<close>

fun int_le_float :: "int \<Rightarrow> double \<Rightarrow> bool" where
  "int_le_float i (Finite x) = (of_int i \<le> x)"
| "int_le_float i PInf = True"
| "int_le_float i NInf = False"
| "int_le_float i NaN = False"

text \<open>\<^verbatim>\<open>i * x\<close> for an int and a float: the int is converted first.\<close>

definition int_mul_float :: "int \<Rightarrow> double \<Rightarrow> py_error + double" where
  "int_mul_float i x =
     (case float_of_int i of
        Inl e \<Rightarrow> Inl e
      | Inr f \<Rightarrow> Inr (float_mul f x))"

subsection \<open>\<^verbatim>\<open>float(s)\<close>\<close>

definition parse_mantissa :: "string \<Rightarrow> rat option" where
  "parse_mantissa s =
     (let ip = takeWhile (\<lambda>c. c \<noteq> CHR ''.'') s;
          rest = dropWhile (\<lambda>c. c \<noteq> CHR ''.'') s
      in case rest of
           [] \<Rightarrow> map_option (\<lambda>(n, _). of_nat n) (parse_digits ip)
         | _ # fp \<Rightarrow>
             if ip = [] then map_option (\<lambda>(f, k). of_nat f / 10 ^ k) (parse_digits fp)
             else if fp = [] then map_option (\<lambda>(n, _). of_nat n) (parse_digits ip)
             else (case (parse_digits ip, parse_digits fp) of
                     (Some (n, _), Some (f, k)) \<Rightarrow> Some (of_nat n + of_nat f / 10 ^ k)
                   | _ \<Rightarrow> None))"

definition parse_signed :: "string \<Rightarrow> int option" where
  "parse_signed s =
     (case s of
        [] \<Rightarrow> None
      | c # cs \<Rightarrow>
          if c = CHR ''-'' then map_option (\<lambda>(n, _). - int n) (parse_digits cs)
          else if c = CHR ''+'' then map_option (\<lambda>(n, _). int n) (parse_digits cs)
          else map_option (\<lambda>(n, _). int n) (parse_digits (c # cs)))"

definition is_exp_mark :: "char \<Rightarrow> bool" where
  "is_exp_mark c = (c = CHR ''e'' \<or> c = CHR ''E'')"

definition parse_decimal :: "string \<Rightarrow> rat option" where
  "parse_decimal s =
     (let m = takeWhile (\<lambda>c. \<not> is_exp_mark c) s;
          rest = dropWhile (\<lambda>c. \<not> is_exp_mark c) s
      in case rest of
           [] \<Rightarrow> parse_mantissa m
         | _ # ex \<Rightarrow>
             (case (parse_mantissa m, parse_signed ex) of
                (Some v, Some k) \<Rightarrow> Some (v * pow10 k)
              | _ \<Rightarrow> None))"

text \<open>
  The unsigned part of a float literal: \<^verbatim>\<open>inf\<close>, \<^verbatim>\<open>infinity\<close> and \<^verbatim>\<open>nan\<close> in any mix of
  upper and lower case, or digits with an optional fraction and an optional exponent.
  \<open>neg\<close> tells that a minus sign stood before it.
\<close>

definition parse_float_body :: "bool \<Rightarrow> string \<Rightarrow> double option" where
  "parse_float_body neg s =
     (if py_lower s = ''inf'' \<or> py_lower s = ''infinity'' then Some (if neg then NInf else PInf)
      else if py_lower s = ''nan'' then Some NaN
      else map_option (\<lambda>v. round_double (if neg then - v else v)) (parse_decimal s))"

text \<open>
  \<^verbatim>\<open>float(s)\<close> for a string: surrounding whitespace, an optional sign, then the literal;
  the value of a decimal literal is rounded to the nearest double, to an infinity when it
  is out of range. \<open>None\<close> stands for ValueError.
\<close>

definition py_float :: "string \<Rightarrow> double option" where
  "py_float s =
     (case strip_with is_space s of
        [] \<Rightarrow> None
      | c # cs \<Rightarrow>
          if c = CHR ''-'' then parse_float_body True cs
          else if c = CHR ''+'' then parse_float_body False cs
          else parse_float_body False (c # cs))"

definition float_field :: "product \<Rightarrow> string \<Rightarrow> py_error + double" where
  "float_field p k =
     (case getitem p k of
        Inl e \<Rightarrow> Inl e
      | Inr v \<Rightarrow> (case py_float v of None \<Rightarrow> Inl ValueError | Some x \<Rightarrow> Inr x))"

section \<open>Aggregation\<close>

text \<open>\<^verbatim>\<open>get_total_inventory_value\<close> (lines 183 to 195).\<close>

fun total_value_loop :: "product list \<Rightarrow> double \<Rightarrow> py_error + double" where
  "total_value_loop [] tot = Inr tot"
| "total_value_loop (p # ps) tot =
     (case int_field p ''quantity'' of
        Inl e \<Rightarrow> Inl e
      | Inr quantity \<Rightarrow>
          (case float_field p ''unit_price'' of
             Inl e \<Rightarrow> Inl e
           | Inr unit_price \<Rightarrow>
               (case int_mul_float quantity unit_price of
                  Inl e \<Rightarrow> Inl e
                | Inr v \<Rightarrow> total_value_loop ps (float_add tot v))))"

definition get_total_inventory_value :: "product list \<Rightarrow> py_error + double" where
  "get_total_inventory_value recs = total_value_loop recs (Finite 0)"

record category_stats =
  count :: int
  total_quantity :: int
  total_value :: double

type_synonym summary = "(string \<times> category_stats) list"

definition new_stats :: category_stats where
  "new_stats = \<lparr>count = 0, total_quantity = 0, total_value = Finite 0\<rparr>"

text \<open>
  \<^verbatim>\<open>get_category_summary\<close> (lines 197 to 218). The summary is a dictionary in insertion
  order: a category enters it when its first record is met.
\<close>

fun category_summary_loop :: "product list \<Rightarrow> summary \<Rightarrow> py_error + summary" where
  "category_summary_loop [] summary = Inr summary"
| "category_summary_loop (p # ps) summary =
     (case getitem p ''category'' of
        Inl e \<Rightarrow> Inl e
      | Inr category \<Rightarrow>
          (let st = (case map_of summary category of None \<Rightarrow> new_stats | Some st \<Rightarrow> st) in
           case int_field p ''quantity'' of
             Inl e \<Rightarrow> Inl e
           | Inr quantity \<Rightarrow>
               (case float_field p ''unit_price'' of
                  Inl e \<Rightarrow> Inl e
                | Inr unit_price \<Rightarrow>
                    (case int_mul_float quantity unit_price of
                       Inl e \<Rightarrow> Inl e
                     | Inr v \<Rightarrow>
                         category_summary_loop ps
                           (AList.update category
                              \<lparr>count = count st + 1,
                               total_quantity = total_quantity st + quantity,
                               total_value = float_add (total_value st) v\<rparr>
                              summary)))))"

definition get_category_summary :: "product list \<Rightarrow> py_error + summary" where
  "get_category_summary recs = category_summary_loop recs []"

text \<open>
  The total of \<^verbatim>\<open>show_category_analysis\<close> (analytics.py, line 107):
  \<^verbatim>\<open>sum(cat['total_value'] for cat in summary.values())\<close>, added from the left starting at 0.
  Interpreters from 3.12 on carry a compensation term through \<^verbatim>\<open>sum\<close> and add it at the
  end when it is finite and not zero; it is zero as long as no addition rounds, which is
  the case wherever this total is evaluated below.
\<close>

definition category_total_value :: "summary \<Rightarrow> double" where
  "category_total_value summary =
     foldl float_add (Finite 0) (map (\<lambda>(c, st). total_value st) summary)"

section \<open>Analytics\<close>

record buckets =
  critical :: "product list"
  low :: "product list"
  normal :: "product list"
  high :: "product list"

text \<open>
  The classifying loop of \<^verbatim>\<open>show_stock_distribution\<close> (analytics.py, lines 36 to 49). The
  result is the four lists the method then counts and prints. \<^verbatim>\<open>0.25\<close> is the double 1/4,
  and the product \<^verbatim>\<open>reorder * 0.25\<close> is computed only when the quantity is not 0.
\<close>

fun distribution_loop :: "product list \<Rightarrow> buckets \<Rightarrow> py_error + buckets" where
  "distribution_loop [] b = Inr b"
| "distribution_loop (p # ps) b =
     (case int_field p ''quantity'' of
        Inl e \<Rightarrow> Inl e
      | Inr qty \<Rightarrow>
          (case int_field p ''reorder_level'' of
             Inl e \<Rightarrow> Inl e
           | Inr reorder \<Rightarrow>
               if qty = 0 then distribution_loop ps (b\<lparr>critical := critical b @ [p]\<rparr>)
               else (case int_mul_float reorder (Finite (1 / 4)) of
                       Inl e \<Rightarrow> Inl e
                     | Inr quarter \<Rightarrow>
                         distribution_loop ps
                           (if int_le_float qty quarter then b\<lparr>critical := critical b @ [p]\<rparr>
                            else if qty \<le> reorder then b\<lparr>low := low b @ [p]\<rparr>
                            else if qty \<le> reorder * 2 then b\<lparr>normal := normal b @ [p]\<rparr>
                            else b\<lparr>high := high b @ [p]\<rparr>))))"

definition show_stock_distribution :: "product list \<Rightarrow> py_error + buckets" where
  "show_stock_distribution recs =
     distribution_loop recs \<lparr>critical = [], low = [], normal = [], high = []\<rparr>"

text \<open>The first loop of \<^verbatim>\<open>show_top_products_by_value\<close> (analytics.py, lines 75 to 80).\<close>

fun value_loop :: "product list \<Rightarrow> (product \<times> double) list
    \<Rightarrow> py_error + (product \<times> double) list" where
  "value_loop [] products_with_value = Inr products_with_value"
| "value_loop (p # ps) products_with_value =
     (case int_field p ''quantity'' of
        Inl e \<Rightarrow> Inl e
      | Inr qty \<Rightarrow>
          (case float_field p ''unit_price'' of
             Inl e \<Rightarrow> Inl e
           | Inr price \<Rightarrow>
               (case int_mul_float qty price of
                  Inl e \<Rightarrow> Inl e
                | Inr v \<Rightarrow> value_loop ps (products_with_value @ [(p, v)]))))"

text \<open>
  \<^verbatim>\<open>list.sort(key=..., reverse=True)\<close> is a stable sort that compares keys with \<^verbatim>\<open><\<close> only:
  the list is reversed, sorted in ascending order with equal keys kept in their order, and
  reversed again. \<open>insert_sorted\<close> puts an element before the first one that is not less
  than it. Which comparisons the library makes, and so what it returns when \<^verbatim>\<open><\<close> does not
  order the keys (a NaN among them), depends on its merge strategy, which is not part of
  this model; for keys that \<^verbatim>\<open><\<close> orders the result is the one given here.
\<close>

fun insert_sorted :: "('a \<Rightarrow> double) \<Rightarrow> 'a \<Rightarrow> 'a list \<Rightarrow> 'a list" where
  "insert_sorted key x [] = [x]"
| "insert_sorted key x (y # ys) =
     (if float_lt (key y) (key x) then y # insert_sorted key x ys else x # y # ys)"

fun stable_sort :: "('a \<Rightarrow> double) \<Rightarrow> 'a list \<Rightarrow> 'a list" where
  "stable_sort key [] = []"
| "stable_sort key (x # xs) = insert_sorted key x (stable_sort key xs)"

definition sort_reverse :: "('a \<Rightarrow> double) \<Rightarrow> 'a list \<Rightarrow> 'a list" where
  "sort_reverse key xs = rev (stable_sort key (rev xs))"

text \<open>The slice \<^verbatim>\<open>xs[:n]\<close>; a negative \<open>n\<close> counts from the end.\<close>

definition slice_to :: "int \<Rightarrow> 'a list \<Rightarrow> 'a list" where
  "slice_to n xs = (if 0 \<le> n then take (nat n) xs else take (length xs - nat (- n)) xs)"

text \<open>
  A line of the table that \<^verbatim>\<open>show_top_products_by_value\<close> prints: the rank, the id, the
  name and the quantity as the record holds them, and the value.
\<close>

record table_row =
  row_rank :: int
  row_id :: string
  row_name :: string
  row_quantity :: string
  row_value :: double

text \<open>
  The printing loop (analytics.py, lines 88 to 90): \<open>i\<close> is the rank of the next line and
  \<open>printed\<close> the lines so far. A record without an id or a name raises KeyError.
\<close>

fun print_rows :: "(product \<times> double) list \<Rightarrow> int \<Rightarrow> table_row list
    \<Rightarrow> py_error + table_row list" where
  "print_rows [] i printed = Inr printed"
| "print_rows ((product, v) # rest) i printed =
     (case getitem product ''product_id'' of
        Inl e \<Rightarrow> Inl e
      | Inr pid \<Rightarrow>
          (case getitem product ''product_name'' of
             Inl e \<Rightarrow> Inl e
           | Inr name \<Rightarrow>
               (case getitem product ''quantity'' of
                  Inl e \<Rightarrow> Inl e
                | Inr quantity \<Rightarrow>
                    print_rows rest (i + 1)
                      (printed @ [\<lparr>row_rank = i, row_id = pid, row_name = name,
                                   row_quantity = quantity, row_value = v\<rparr>]))))"

text \<open>
  \<^verbatim>\<open>show_top_products_by_value\<close> (analytics.py, lines 63 to 92): the result is the
  sequence of lines of the table.
\<close>

definition show_top_products_by_value :: "product list \<Rightarrow> int
    \<Rightarrow> py_error + table_row list" where
  "show_top_products_by_value recs top_n =
     (case value_loop recs [] of
        Inl e \<Rightarrow> Inl e
      | Inr products_with_value \<Rightarrow>
          print_rows (slice_to top_n (sort_reverse snd products_with_value)) 1 [])"

section \<open>Reading well-formed records\<close>

text \<open>
  The properties below speak of the number a field holds. \<open>parses_int p k\<close> says that
  \<^verbatim>\<open>int(p[k])\<close> returns, and \<open>field_int p k\<close> is then the number returned.
\<close>

definition parses_int :: "product \<Rightarrow> string \<Rightarrow> bool" where
  "parses_int p k = (case int_field p k of Inl _ \<Rightarrow> False | Inr _ \<Rightarrow> True)"

definition field_int :: "product \<Rightarrow> string \<Rightarrow> int" where
  "field_int p k = (case int_field p k of Inl _ \<Rightarrow> 0 | Inr n \<Rightarrow> n)"

definition product_id_is :: "string \<Rightarrow> product \<Rightarrow> bool" where
  "product_id_is i p = (map_of p ''product_id'' = Some i)"

definition has_other_id :: "string \<Rightarrow> product \<Rightarrow> bool" where
  "has_other_id i p = (case map_of p ''product_id'' of None \<Rightarrow> False | Some j \<Rightarrow> j \<noteq> i)"

definition has_id :: "product \<Rightarrow> bool" where
  "has_id p = (map_of p ''product_id'' \<noteq> None)"

text \<open>The value of a run of digits read from the left, starting from \<open>acc\<close>.\<close>

definition digits_value :: "nat \<Rightarrow> string \<Rightarrow> nat" where
  "digits_value acc ds = foldl (\<lambda>a c. 10 * a + digit_val c) acc ds"

text \<open>Every record's quantity is a number and is not negative.\<close>

definition quantities_nonneg :: "product list \<Rightarrow> bool" where
  "quantities_nonneg recs =
     list_all (\<lambda>p. parses_int p ''quantity'' \<and> 0 \<le> field_int p ''quantity'') recs"

text \<open>Every record has an id and no two records have the same.\<close>

definition unique_ids :: "product list \<Rightarrow> bool" where
  "unique_ids recs = (list_all has_id recs \<and> distinct (map (\<lambda>p. map_of p ''product_id'') recs))"

text \<open>
  The records form a table: each is a dictionary (its keys are distinct) with the columns
  of the first record, in the same order, and there is at least one column.
\<close>

definition uniform_columns :: "product list \<Rightarrow> bool" where
  "uniform_columns recs =
     (case recs of
        [] \<Rightarrow> True
      | first # _ \<Rightarrow>
          first \<noteq> [] \<and> list_all (\<lambda>p. distinct (map fst p) \<and> map fst p = map fst first) recs)"

text \<open>A run of the add handler over the forms typed on successive days.\<close>

fun handle_adds :: "(string \<times> add_form) list \<Rightarrow> state \<Rightarrow> state" where
  "handle_adds [] s = s"
| "handle_adds ((today, f) # fs) s = handle_adds fs (handle_add_product today f s)"

text \<open>A bool compared with a number: \<^verbatim>\<open>True == 1\<close> and \<^verbatim>\<open>False == 0\<close>.\<close>

definition bool_as_int :: "bool \<Rightarrow> int" where
  "bool_as_int b = (if b then 1 else 0)"

section \<open>The buckets and the values the properties speak of\<close>

text \<open>
  The four bucket conditions as the specification words them, on the quantity \<open>q\<close> and the
  reorder level \<open>r\<close> of a record, in exact arithmetic: a quarter of the reorder level is
  the rational \<open>r / 4\<close>.
\<close>

definition is_critical :: "product \<Rightarrow> bool" where
  "is_critical p =
     (field_int p ''quantity'' = 0
      \<or> (of_int (field_int p ''quantity'') :: rat) \<le> (1 / 4) * of_int (field_int p ''reorder_level''))"

definition is_low :: "product \<Rightarrow> bool" where
  "is_low p =
     ((1 / 4) * of_int (field_int p ''reorder_level'') < (of_int (field_int p ''quantity'') :: rat)
      \<and> field_int p ''quantity'' \<le> field_int p ''reorder_level'')"

definition is_normal :: "product \<Rightarrow> bool" where
  "is_normal p =
     (field_int p ''reorder_level'' < field_int p ''quantity''
      \<and> field_int p ''quantity'' \<le> 2 * field_int p ''reorder_level'')"

definition is_high :: "product \<Rightarrow> bool" where
  "is_high p = (2 * field_int p ''reorder_level'' < field_int p ''quantity'')"

text \<open>
  The branch of the \<^verbatim>\<open>if\<close>/\<^verbatim>\<open>elif\<close> chain of the classifying loop that a record takes, or
  the exception it raises there.
\<close>

datatype level = Critical | Low | Normal | High

definition stock_level :: "product \<Rightarrow> py_error + level" where
  "stock_level p =
     (case int_field p ''quantity'' of
        Inl e \<Rightarrow> Inl e
      | Inr qty \<Rightarrow>
          (case int_field p ''reorder_level'' of
             Inl e \<Rightarrow> Inl e
           | Inr reorder \<Rightarrow>
               if qty = 0 then Inr Critical
               else (case int_mul_float reorder (Finite (1 / 4)) of
                       Inl e \<Rightarrow> Inl e
                     | Inr quarter \<Rightarrow>
                         Inr (if int_le_float qty quarter then Critical
                              else if qty \<le> reorder then Low
                              else if qty \<le> reorder * 2 then Normal
                              else High))))"

text \<open>
  The value of a record, \<^verbatim>\<open>int(quantity) * float(unit_price)\<close>, or the exception that
  computing it raises.
\<close>

definition value_of :: "product \<Rightarrow> py_error + double" where
  "value_of p =
     (case int_field p ''quantity'' of
        Inl e \<Rightarrow> Inl e
      | Inr qty \<Rightarrow>
          (case float_field p ''unit_price'' of
             Inl e \<Rightarrow> Inl e
           | Inr price \<Rightarrow> int_mul_float qty price))"

text \<open>
  \<open>has_value p\<close>: the value of the record can be computed. \<open>record_value p\<close> is then the value.
  \<open>ordered_value p\<close>: moreover the value is not NaN, so that \<^verbatim>\<open><\<close> compares it with every
  other such value.
\<close>

definition has_value :: "product \<Rightarrow> bool" where
  "has_value p = (case value_of p of Inl _ \<Rightarrow> False | Inr _ \<Rightarrow> True)"

definition record_value :: "product \<Rightarrow> double" where
  "record_value p = (case value_of p of Inl _ \<Rightarrow> NaN | Inr v \<Rightarrow> v)"

definition ordered_value :: "product \<Rightarrow> bool" where
  "ordered_value p = (case value_of p of Inl _ \<Rightarrow> False | Inr v \<Rightarrow> v \<noteq> NaN)"

definition with_values :: "product list \<Rightarrow> (product \<times> double) list" where
  "with_values recs = map (\<lambda>p. (p, record_value p)) recs"

text \<open>\<^verbatim>\<open>a <= b\<close> on floats.\<close>

definition float_le :: "double \<Rightarrow> double \<Rightarrow> bool" where
  "float_le a b = (float_lt a b \<or> float_eq a b)"

text \<open>
  The table for a ranking: the lines for the rows of \<open>ranked\<close>, numbered from \<open>i\<close>.
\<close>

definition text_field :: "product \<Rightarrow> string \<Rightarrow> string" where
  "text_field p k = (case map_of p k of None \<Rightarrow> [] | Some v \<Rightarrow> v)"

fun table_from :: "int \<Rightarrow> (product \<times> double) list \<Rightarrow> table_row list" where
  "table_from i [] = []"
| "table_from i ((p, v) # rest) =
     \<lparr>row_rank = i, row_id = text_field p ''product_id'', row_name = text_field p ''product_name'',
      row_quantity = text_field p ''quantity'', row_value = v\<rparr> # table_from (i + 1) rest"

definition has_name :: "product \<Rightarrow> bool" where
  "has_name p = (map_of p ''product_name'' \<noteq> None)"

text \<open>
  An addition that does not round: both operands are finite and the double nearest to
  their exact sum is that sum. \<open>sum_exactly acc vs\<close>: no addition rounds when the values
  \<open>vs\<close> are added one after the other to the running total \<open>acc\<close>.
\<close>

definition adds_exactly :: "double \<Rightarrow> double \<Rightarrow> bool" where
  "adds_exactly a b =
     (case (a, b) of
        (Finite x, Finite y) \<Rightarrow> float_add a b = Finite (x + y)
      | _ \<Rightarrow> False)"

fun sum_exactly :: "double \<Rightarrow> double list \<Rightarrow> bool" where
  "sum_exactly acc [] = True"
| "sum_exactly acc (v # vs) = (adds_exactly acc v \<and> sum_exactly (float_add acc v) vs)"

text \<open>The records of a category, and the category of a record that has one.\<close>

definition in_category :: "string \<Rightarrow> product \<Rightarrow> bool" where
  "in_category c p = (map_of p ''category'' = Some c)"

definition has_category :: "product \<Rightarrow> bool" where
  "has_category p = (map_of p ''category'' \<noteq> None)"

text \<open>
  No addition of the two aggregations rounds: not in the running total of the store, not
  in the running total of any category, and not in the sum of the category totals.
\<close>

definition totals_add_exactly :: "summary \<Rightarrow> bool" where
  "totals_add_exactly sm = sum_exactly (Finite 0) (map (\<lambda>(c, st). total_value st) sm)"

definition no_rounding :: "product list \<Rightarrow> bool" where
  "no_rounding recs =
     (sum_exactly (Finite 0) (map record_value recs)
      \<and> list_all (\<lambda>p. sum_exactly (Finite 0)
                        (map record_value (filter (in_category (text_field p ''category'')) recs)))
           recs
      \<and> (case get_category_summary recs of
           Inl _ \<Rightarrow> True
         | Inr sm \<Rightarrow> totals_add_exactly sm))"

text \<open>The finite value of a double, and the exact sum of the values of records.\<close>

definition rat_of :: "double \<Rightarrow> rat" where
  "rat_of a = (case a of Finite x \<Rightarrow> x | _ \<Rightarrow> 0)"

definition exact_total :: "product list \<Rightarrow> rat" where
  "exact_total recs = sum_list (map (\<lambda>p. rat_of (record_value p)) recs)"

definition summary_total :: "summary \<Rightarrow> rat" where
  "summary_total sm = sum_list (map (\<lambda>(c, st). rat_of (total_value st)) sm)"

section \<open>Example records\<close>

text \<open>The two records of the specification's scenario, and a second record with the id P001.\<close>

definition rec_P001 :: product where
  "rec_P001 = [(''product_id'', ''P001''), (''product_name'', ''Laptop''),
     (''category'', ''Electronics''), (''quantity'', ''10''), (''unit_price'', ''100''),
     (''reorder_level'', ''5''), (''supplier'', ''Acme''), (''warehouse_location'', ''A1''),
     (''last_updated'', ''2024-01-01'')]"

definition rec_P002 :: product where
  "rec_P002 = [(''product_id'', ''P002''), (''product_name'', ''Mouse''),
     (''category'', ''Accessories''), (''quantity'', ''5''), (''unit_price'', ''50''),
     (''reorder_level'', ''5''), (''supplier'', ''Bolt''), (''warehouse_location'', ''B2''),
     (''last_updated'', ''2024-01-01'')]"

definition rec_P001_again :: product where
  "rec_P001_again = [(''product_id'', ''P001''), (''product_name'', ''Laptop Pro''),
     (''category'', ''Electronics''), (''quantity'', ''3''), (''unit_price'', ''200''),
     (''reorder_level'', ''2''), (''supplier'', ''Acme''), (''warehouse_location'', ''A2''),
     (''last_updated'', ''2024-01-01'')]"

definition store_dup :: state where
  "store_dup = \<lparr>inventory = [rec_P002, rec_P001, rec_P001_again], disk = None, console = []\<rparr>"

definition store_empty :: state where
  "store_empty = \<lparr>inventory = [], disk = None, console = []\<rparr>"

definition file_one :: csv_file where
  "file_one = \<lparr>header = map fst rec_P001, rows = [map snd rec_P001]\<rparr>"

definition store_one :: state where
  "store_one = \<lparr>inventory = [rec_P001], disk = Some file_one, console = []\<rparr>"

definition store_two :: state where
  "store_two = \<lparr>inventory = [rec_P001, rec_P002], disk = None, console = []\<rparr>"

definition rec_negative :: product where
  "rec_negative = [(''product_id'', ''P003''), (''product_name'', ''Cable''),
     (''category'', ''Accessories''), (''quantity'', ''-5''), (''unit_price'', ''3''),
     (''reorder_level'', ''2''), (''supplier'', ''Bolt''), (''warehouse_location'', ''C3'')]"

definition form_negative :: add_form where
  "form_negative = \<lparr>in_product_id = ''P003'', in_product_name = ''Cable'',
     in_category = ''Accessories'', in_quantity = ''-5'', in_unit_price = ''3'',
     in_reorder_level = ''2'', in_supplier = ''Bolt'', in_warehouse_location = ''C3''\<rparr>"

definition form_P001 :: add_form where
  "form_P001 = \<lparr>in_product_id = '' P001 '', in_product_name = ''Laptop Pro'',
     in_category = ''Electronics'', in_quantity = ''3'', in_unit_price = ''200'',
     in_reorder_level = ''2'', in_supplier = ''Acme'', in_warehouse_location = ''A2''\<rparr>"

definition rec_sold_out :: product where
  "rec_sold_out = [(''product_id'', ''P004''), (''product_name'', ''Monitor''),
     (''category'', ''Electronics''), (''quantity'', ''0''), (''unit_price'', ''150''),
     (''reorder_level'', ''5''), (''supplier'', ''Acme''), (''warehouse_location'', ''A3''),
     (''last_updated'', ''2024-01-01'')]"

definition rec_no_reorder :: product where
  "rec_no_reorder = [(''product_id'', ''P005''), (''product_name'', ''Poster''),
     (''category'', ''Decoration''), (''quantity'', ''4''), (''unit_price'', ''2''),
     (''reorder_level'', ''0''), (''supplier'', ''Bolt''), (''warehouse_location'', ''D4''),
     (''last_updated'', ''2024-01-01'')]"

definition rec_P006 :: product where
  "rec_P006 = [(''product_id'', ''P006''), (''product_name'', ''Tablet''),
     (''category'', ''Electronics''), (''quantity'', ''5''), (''unit_price'', ''200''),
     (''reorder_level'', ''3''), (''supplier'', ''Acme''), (''warehouse_location'', ''A4''),
     (''last_updated'', ''2024-01-01'')]"

text \<open>One record worth \<open>10^16\<close> and two records worth 1 in another category.\<close>

definition rec_big :: product where
  "rec_big = [(''product_id'', ''P101''), (''product_name'', ''Press''),
     (''category'', ''Machines''), (''quantity'', ''1''), (''unit_price'', ''10000000000000000''),
     (''reorder_level'', ''1''), (''supplier'', ''Acme''), (''warehouse_location'', ''M1''),
     (''last_updated'', ''2024-01-01'')]"

definition rec_unit_a :: product where
  "rec_unit_a = [(''product_id'', ''P102''), (''product_name'', ''Washer''),
     (''category'', ''Parts''), (''quantity'', ''1''), (''unit_price'', ''1''),
     (''reorder_level'', ''1''), (''supplier'', ''Bolt''), (''warehouse_location'', ''M2''),
     (''last_updated'', ''2024-01-01'')]"

definition rec_unit_b :: product where
  "rec_unit_b = [(''product_id'', ''P103''), (''product_name'', ''Nut''),
     (''category'', ''Parts''), (''quantity'', ''1''), (''unit_price'', ''1''),
     (''reorder_level'', ''1''), (''supplier'', ''Bolt''), (''warehouse_location'', ''M3''),
     (''last_updated'', ''2024-01-01'')]"

text \<open>A record with a price of a half, and one whose price has an exponent.\<close>

definition rec_half :: product where
  "rec_half = [(''product_id'', ''P007''), (''product_name'', ''Sticker''),
     (''category'', ''Accessories''), (''quantity'', ''3''), (''unit_price'', ''0.5''),
     (''reorder_level'', ''10''), (''supplier'', ''Bolt''), (''warehouse_location'', ''B3''),
     (''last_updated'', ''2024-01-01'')]"

text \<open>A reorder level of \<open>2 * 10^308\<close>, beyond the largest double.\<close>

definition rec_huge_reorder :: product where
  "rec_huge_reorder = [(''product_id'', ''P201''), (''product_name'', ''Bolt''),
     (''category'', ''Parts''), (''quantity'', ''1''), (''unit_price'', ''1''),
     (''reorder_level'', ''2'' @ replicate 308 CHR ''0''), (''supplier'', ''Bolt''),
     (''warehouse_location'', ''M4''), (''last_updated'', ''2024-01-01'')]"

text \<open>A quantity of \<open>2^53 + 1\<close> on a reorder level of \<open>2^55 + 4\<close>, four times as much.\<close>

definition rec_quarter :: product where
  "rec_quarter = [(''product_id'', ''P202''), (''product_name'', ''Rivet''),
     (''category'', ''Parts''), (''quantity'', ''9007199254740993''), (''unit_price'', ''1''),
     (''reorder_level'', ''36028797018963972''), (''supplier'', ''Bolt''),
     (''warehouse_location'', ''M5''), (''last_updated'', ''2024-01-01'')]"


text \<open>A record that is out of stock, with a price beyond the largest double.\<close>

definition rec_no_stock :: product where
  "rec_no_stock = [(''product_id'', ''P203''), (''product_name'', ''Crane''),
     (''category'', ''Machines''), (''quantity'', ''0''), (''unit_price'', ''1e309''),
     (''reorder_level'', ''1''), (''supplier'', ''Acme''), (''warehouse_location'', ''M6''),
     (''last_updated'', ''2024-01-01'')]"

section \<open>Basic facts\<close>

lemma inventory_print [simp]: "inventory (print m s) = inventory s"
  by (simp add: print_def)

lemma disk_print [simp]: "disk (print m s) = disk s"
  by (simp add: print_def)

lemma console_print [simp]: "console (print m s) = console s @ [m]"
  by (simp add: print_def)

lemma inventory_save_inventory [simp]: "inventory (save_inventory s) = inventory s"
  by (cases "inventory s") (auto simp: save_inventory_def Let_def split: prod.splits)

lemma int_field_parsed: "parses_int p k \<Longrightarrow> int_field p k = Inr (field_int p k)"
  by (simp add: parses_int_def field_int_def split: sum.splits)

lemma getitem_id_is: "product_id_is i p \<Longrightarrow> getitem p ''product_id'' = Inr i"
  by (simp add: product_id_is_def getitem_def)

lemma getitem_other_id:
  "has_other_id i p \<Longrightarrow> \<exists>j. getitem p ''product_id'' = Inr j \<and> j \<noteq> i"
  by (auto simp: has_other_id_def getitem_def split: option.splits)

lemma getitem_has_id: "has_id p \<Longrightarrow> \<exists>j. getitem p ''product_id'' = Inr j"
  by (auto simp: has_id_def getitem_def split: option.splits)

lemma has_other_id_not_is: "has_other_id i r \<Longrightarrow> \<not> product_id_is i r"
  by (auto simp: has_other_id_def product_id_is_def split: option.splits)

lemma has_other_id_has_id: "has_other_id i r \<Longrightarrow> has_id r"
  by (auto simp: has_other_id_def has_id_def split: option.splits)

lemma product_id_is_has_id: "product_id_is i r \<Longrightarrow> has_id r"
  by (simp add: has_id_def product_id_is_def)

subsection \<open>The three scans by product id\<close>

lemma get_product_first:
  "\<forall>r \<in> set pre. has_other_id i r \<Longrightarrow> product_id_is i p \<Longrightarrow>
   get_product (pre @ p # post) i = Inr (Some p)"
proof (induction pre)
  case Nil
  then show ?case by (simp add: getitem_id_is)
next
  case (Cons r pre)
  then obtain j where "getitem r ''product_id'' = Inr j" "j \<noteq> i"
    using getitem_other_id by fastforce
  with Cons show ?case by simp
qed

lemma update_first_first:
  "\<forall>r \<in> set pre. has_other_id i r \<Longrightarrow> product_id_is i p \<Longrightarrow>
   update_first today i updates (pre @ p # post) =
     Inr (Some (pre @ setitem ''last_updated'' today (dict_update p updates) # post))"
proof (induction pre)
  case Nil
  then show ?case by (simp add: getitem_id_is)
next
  case (Cons r pre)
  then obtain j where "getitem r ''product_id'' = Inr j" "j \<noteq> i"
    using getitem_other_id by fastforce
  with Cons show ?case by simp
qed

lemma remove_id_filter:
  "\<forall>r \<in> set recs. has_id r \<Longrightarrow>
   remove_id i recs = Inr (filter (\<lambda>r. \<not> product_id_is i r) recs)"
proof (induction recs)
  case Nil
  then show ?case by simp
next
  case (Cons r recs)
  then obtain j where j: "getitem r ''product_id'' = Inr j"
    using getitem_has_id by fastforce
  then have "product_id_is i r \<longleftrightarrow> j = i"
    by (auto simp: product_id_is_def getitem_def split: option.splits)
  with Cons j show ?case by simp
qed

section \<open>Printing an integer and reading it back\<close>


lemma digit_char_digit: "d < 10 \<Longrightarrow> is_digit (digit_char d) \<and> digit_val (digit_char d) = d"
  by (simp add: is_digit_def digit_val_def digit_char_def)

lemma not_space_digit: "is_digit c \<Longrightarrow> \<not> is_space c"
  by (auto simp: is_digit_def is_space_def)

lemma digit_not_sign: "is_digit c \<Longrightarrow> c \<noteq> CHR ''-'' \<and> c \<noteq> CHR ''+''"
  by (auto simp: is_digit_def)

lemma digits_of_digits: "\<forall>c \<in> set (digits_of n). is_digit c"
proof (induction n rule: digits_of.induct)
  case (1 n)
  show ?case
  proof (cases "n < 10")
    case True
    then show ?thesis by (subst digits_of.simps) (simp add: digit_char_digit)
  next
    case False
    then have "\<forall>c \<in> set (digits_of (n div 10)). is_digit c" using 1 by simp
    moreover have "is_digit (digit_char (n mod 10))" by (simp add: digit_char_digit)
    ultimately show ?thesis using False by (subst digits_of.simps) auto
  qed
qed

lemma digits_of_nonempty: "digits_of n \<noteq> []"
  by (subst digits_of.simps) simp


lemma parse_digits_after_all_digits:
  "\<forall>c \<in> set ds. is_digit c \<Longrightarrow>
   parse_digits_after acc cnt ds = Some (digits_value acc ds, cnt + length ds)"
proof (induction ds arbitrary: acc cnt)
  case Nil
  then show ?case by (simp add: digits_value_def)
next
  case (Cons c ds)
  show ?case
  proof (cases ds)
    case Nil
    with Cons.prems show ?thesis by (simp add: digits_value_def)
  next
    case (Cons d ds')
    with Cons.prems Cons.IH[of "10 * acc + digit_val c" "Suc cnt"] show ?thesis
      by (simp add: digits_value_def)
  qed
qed

lemma digits_value_digits_of: "digits_value 0 (digits_of n) = n"
proof (induction n rule: digits_of.induct)
  case (1 n)
  show ?case
  proof (cases "n < 10")
    case True
    then show ?thesis by (subst digits_of.simps) (simp add: digits_value_def digit_char_digit)
  next
    case False
    then have "digits_value 0 (digits_of (n div 10)) = n div 10" using 1 by simp
    then have "digits_value 0 (digits_of (n div 10) @ [digit_char (n mod 10)]) = 10 * (n div 10) + n mod 10"
      by (simp add: digits_value_def digit_char_digit)
    then show ?thesis using False by (subst digits_of.simps) simp
  qed
qed

lemma parse_digits_digits_of: "\<exists>k. parse_digits (digits_of n) = Some (n, k)"
proof -
  obtain c cs where cs: "digits_of n = c # cs"
    using digits_of_nonempty by (cases "digits_of n") auto
  have dig: "is_digit c" "\<forall>x \<in> set cs. is_digit x"
    using digits_of_digits[of n] cs by auto
  have "digits_value (digit_val c) cs = digits_value 0 (c # cs)"
    by (simp add: digits_value_def)
  then have "digits_value (digit_val c) cs = n"
    using digits_value_digits_of[of n] cs by simp
  then show ?thesis
    using cs dig parse_digits_after_all_digits[OF dig(2), of "digit_val c" 1]
    by (simp add: parse_digits_def)
qed

lemma strip_with_id:
  "s \<noteq> [] \<Longrightarrow> \<not> sp (hd s) \<Longrightarrow> \<not> sp (last s) \<Longrightarrow> strip_with sp s = s"
proof -
  assume a: "s \<noteq> []" "\<not> sp (hd s)" "\<not> sp (last s)"
  then have "dropWhile sp s = s" by (cases s) auto
  moreover have "dropWhile sp (rev s) = rev s"
    using a by (cases "rev s") (auto simp: hd_rev)
  ultimately show ?thesis by (simp add: strip_with_def)
qed

lemma last_digits_of_digit: "is_digit (last (digits_of n))"
  using digits_of_digits[of n] digits_of_nonempty[of n] last_in_set by blast

lemma hd_digits_of_digit: "is_digit (hd (digits_of n))"
  using digits_of_digits[of n] digits_of_nonempty[of n] hd_in_set by blast

lemma py_int_py_str: "py_int (py_str i) = Some i"
proof (cases "i < 0")
  case True
  let ?ds = "digits_of (nat (- i))"
  have "\<not> is_space (CHR ''-'')" by (simp add: is_space_def)
  moreover have "\<not> is_space (last (CHR ''-'' # ?ds))"
    using last_digits_of_digit[of "nat (- i)"] digits_of_nonempty[of "nat (- i)"]
    by (simp add: not_space_digit)
  ultimately have "strip_with is_space (CHR ''-'' # ?ds) = CHR ''-'' # ?ds"
    by (intro strip_with_id) simp_all
  moreover obtain k where "parse_digits ?ds = Some (nat (- i), k)"
    using parse_digits_digits_of by blast
  ultimately show ?thesis using True by (simp add: py_int_def py_str_def)
next
  case False
  let ?ds = "digits_of (nat i)"
  obtain c cs where cs: "?ds = c # cs"
    using digits_of_nonempty by (cases ?ds) auto
  have c: "is_digit c" using hd_digits_of_digit[of "nat i"] cs by simp
  have "strip_with is_space ?ds = ?ds"
    using hd_digits_of_digit[of "nat i"] last_digits_of_digit[of "nat i"] digits_of_nonempty[of "nat i"]
    by (intro strip_with_id) (simp_all add: not_space_digit)
  moreover obtain k where "parse_digits ?ds = Some (nat i, k)"
    using parse_digits_digits_of by blast
  ultimately show ?thesis
    using False cs c digit_not_sign[OF c] by (simp add: py_int_def py_str_def)
qed

section \<open>Dictionaries and the quantity of a record\<close>


lemma map_of_setitem: "map_of (setitem k v d) k' = (if k' = k then Some v else map_of d k')"
  by (simp add: setitem_def update_conv')

lemma dict_update_single: "dict_update p [(k, v)] = setitem k v p"
  by (simp add: dict_update_def)

lemma int_field_setitem_other:
  "k' \<noteq> k \<Longrightarrow> int_field (setitem k v d) k' = int_field d k'"
  by (simp add: int_field_def getitem_def map_of_setitem)

lemma int_field_setitem_same: "int_field (setitem k (py_str n) d) k = Inr n"
  by (simp add: int_field_def getitem_def map_of_setitem py_int_py_str)

lemma quantity_after_adjust:
  "int_field (setitem ''last_updated'' today (dict_update p [(''quantity'', py_str n)])) ''quantity'' = Inr n"
  by (simp add: dict_update_single int_field_setitem_other int_field_setitem_same)

lemma id_after_adjust:
  "map_of (setitem ''last_updated'' today (dict_update p [(''quantity'', v)])) ''product_id''
     = map_of p ''product_id''"
  by (simp add: dict_update_single map_of_setitem)

lemma quantities_nonneg_Cons:
  "quantities_nonneg (p # ps) \<longleftrightarrow>
     parses_int p ''quantity'' \<and> 0 \<le> field_int p ''quantity'' \<and> quantities_nonneg ps"
  by (simp add: quantities_nonneg_def)

lemma adjusted_nonneg:
  "0 \<le> n \<Longrightarrow>
   parses_int (setitem ''last_updated'' today (dict_update p [(''quantity'', py_str n)])) ''quantity''
   \<and> 0 \<le> field_int (setitem ''last_updated'' today (dict_update p [(''quantity'', py_str n)])) ''quantity''"
  by (simp add: parses_int_def field_int_def quantity_after_adjust)

lemma update_first_nonneg:
  "update_first today i [(''quantity'', py_str n)] recs = Inr (Some recs') \<Longrightarrow>
   0 \<le> n \<Longrightarrow> quantities_nonneg recs \<Longrightarrow> quantities_nonneg recs'"
proof (induction recs arbitrary: recs')
  case Nil
  then show ?case by simp
next
  case (Cons p ps)
  then show ?case
    by (auto simp: quantities_nonneg_Cons adjusted_nonneg split: sum.splits if_splits option.splits)
qed

lemma remove_id_subset: "remove_id i recs = Inr recs' \<Longrightarrow> set recs' \<subseteq> set recs"
proof (induction recs arbitrary: recs')
  case Nil
  then show ?case by simp
next
  case (Cons p ps)
  then show ?case by (auto split: sum.splits if_splits)
qed

lemma get_product_update_first:
  "get_product recs i = Inr (Some p) \<Longrightarrow> \<exists>recs'. update_first today i u recs = Inr (Some recs')"
proof (induction recs)
  case Nil
  then show ?case by simp
next
  case (Cons r rs)
  then show ?case by (auto split: sum.splits if_splits)
qed

lemma update_product_inventory:
  "update_product today i u s = Inr (b, s') \<Longrightarrow>
   (update_first today i u (inventory s) = Inr None \<and> \<not> b \<and> s' = print (ProductNotFound i) s)
   \<or> (\<exists>recs'. update_first today i u (inventory s) = Inr (Some recs') \<and> b
        \<and> s' = print (UpdatedProduct i) (save_inventory (s\<lparr>inventory := recs'\<rparr>)))"
  by (auto simp: update_product_def split: sum.splits option.splits)

lemma update_quantity_cases:
  "update_quantity today i d s = Inr (b, s') \<Longrightarrow>
   inventory s' = inventory s
   \<or> (\<exists>p cur b1 s1. get_product (inventory s) i = Inr (Some p)
         \<and> int_field p ''quantity'' = Inr cur \<and> 0 \<le> cur + d
         \<and> update_product today i [(''quantity'', py_str (cur + d))] s = Inr (b1, s1)
         \<and> inventory s' = inventory s1)"
  by (auto simp: update_quantity_def Let_def split: sum.splits option.splits if_splits)

lemma update_quantity_nonneg:
  assumes "update_quantity today i d s = Inr (b, s')" and "quantities_nonneg (inventory s)"
  shows "quantities_nonneg (inventory s')"
  using update_quantity_cases[OF assms(1)]
proof
  assume "inventory s' = inventory s"
  then show ?thesis using assms(2) by simp
next
  assume "\<exists>p cur b1 s1. get_product (inventory s) i = Inr (Some p)
         \<and> int_field p ''quantity'' = Inr cur \<and> 0 \<le> cur + d
         \<and> update_product today i [(''quantity'', py_str (cur + d))] s = Inr (b1, s1)
         \<and> inventory s' = inventory s1"
  then obtain p cur b1 s1 where
    n: "0 \<le> cur + d" and
    u: "update_product today i [(''quantity'', py_str (cur + d))] s = Inr (b1, s1)" and
    i: "inventory s' = inventory s1"
    by blast
  show ?thesis
    using update_product_inventory[OF u] update_first_nonneg[OF _ n assms(2)] assms(2) i
    by auto
qed

lemma delete_product_nonneg:
  assumes "delete_product i s = Inr (b, s')" and "quantities_nonneg (inventory s)"
  shows "quantities_nonneg (inventory s')"
proof -
  obtain recs' where r: "remove_id i (inventory s) = Inr recs'" "inventory s' = recs'"
    using assms(1) by (auto simp: delete_product_def Let_def split: sum.splits if_splits)
  then show ?thesis
    using remove_id_subset[OF r(1)] assms(2)
    by (auto simp: quantities_nonneg_def list_all_iff)
qed

section \<open>Adding through the command handler\<close>


lemma inventory_add_product:
  "inventory (add_product today p s) = inventory s @ [setitem ''last_updated'' today p]"
  by (simp add: add_product_def Let_def)

lemma get_product_Some:
  "get_product recs i = Inr (Some r) \<Longrightarrow> product_id_is i r \<and> r \<in> set recs"
proof (induction recs)
  case Nil
  then show ?case by simp
next
  case (Cons p ps)
  then show ?case
    by (auto simp: getitem_def product_id_is_def split: sum.splits if_splits option.splits)
qed

lemma get_product_None:
  "get_product recs i = Inr None \<Longrightarrow> \<forall>r \<in> set recs. has_other_id i r"
proof (induction recs)
  case Nil
  then show ?case by simp
next
  case (Cons p ps)
  then show ?case
    by (auto simp: getitem_def has_other_id_def split: sum.splits if_splits option.splits)
qed

lemma product_id_is_nonempty: "product_id_is i r \<Longrightarrow> r \<noteq> []"
  by (auto simp: product_id_is_def)

lemma form_data_id: "map_of (form_data f) ''product_id'' = Some (py_strip (in_product_id f))"
  by (simp add: form_data_def)

lemma handle_add_product_duplicate:
  assumes "get_product (inventory s) (py_strip (in_product_id f)) = Inr (Some r)"
  shows "handle_add_product today f s =
           print (if list_all (\<lambda>v. v \<noteq> []) (map snd (form_data f))
                  then IdAlreadyExists (py_strip (in_product_id f)) else AllFieldsRequired) s"
  using assms product_id_is_nonempty[of "py_strip (in_product_id f)" r] get_product_Some[OF assms]
  by (simp add: handle_add_product_def Let_def)

lemma unique_ids_snoc:
  "unique_ids recs \<Longrightarrow> \<forall>r \<in> set recs. has_other_id i r \<Longrightarrow> map_of p ''product_id'' = Some i \<Longrightarrow>
   unique_ids (recs @ [p])"
  by (auto simp: unique_ids_def has_id_def has_other_id_def list_all_iff split: option.splits)

lemma handle_add_product_unique:
  assumes "unique_ids (inventory s)"
  shows "unique_ids (inventory (handle_add_product today f s))"
proof (cases "get_product (inventory s) (py_strip (in_product_id f))")
  case (Inl e)
  then show ?thesis using assms by (simp add: handle_add_product_def Let_def)
next
  case (Inr found)
  show ?thesis
  proof (cases found)
    case None
    have "map_of (setitem ''last_updated'' today (form_data f)) ''product_id''
            = Some (py_strip (in_product_id f))"
      by (simp add: map_of_setitem form_data_id)
    then have "unique_ids (inventory s @ [setitem ''last_updated'' today (form_data f)])"
      using unique_ids_snoc[OF assms get_product_None] Inr None by blast
    then show ?thesis
      using assms Inr None by (simp add: handle_add_product_def Let_def inventory_add_product)
  next
    case (Some r)
    then show ?thesis
      using assms handle_add_product_duplicate[of s f r today] Inr by simp
  qed
qed

lemma handle_adds_unique:
  "unique_ids (inventory s) \<Longrightarrow> unique_ids (inventory (handle_adds fs s))"
  by (induction fs s rule: handle_adds.induct) (simp_all add: handle_add_product_unique)

section \<open>The example records evaluated\<close>

lemma int_field_examples:
  "int_field rec_P001 ''quantity'' = Inr 10"
  "int_field rec_P002 ''quantity'' = Inr 5"
  "int_field rec_negative ''quantity'' = Inr (- 5)"
  by (simp_all add: rec_P001_def rec_P002_def rec_negative_def int_field_def getitem_def py_int_def
      strip_with_def is_space_def parse_digits_def is_digit_def digit_val_def)

lemma store_two_nonneg: "quantities_nonneg (inventory store_two)"
  by (simp add: store_two_def quantities_nonneg_def parses_int_def field_int_def int_field_examples)

lemma get_product_store_two:
  "get_product (inventory store_two) ''P001'' = Inr (Some rec_P001)"
  "get_product (inventory store_two) ''P002'' = Inr (Some rec_P002)"
  by (simp_all add: store_two_def rec_P001_def rec_P002_def getitem_def)

lemma update_first_store_two:
  "update_first today ''P001'' u (inventory store_two)
     = Inr (Some [setitem ''last_updated'' today (dict_update rec_P001 u), rec_P002])"
  using update_first_first[of "[]" "''P001''" rec_P001 today u "[rec_P002]"]
  by (simp add: store_two_def product_id_is_def rec_P001_def)

section \<open>What a save leaves in the file\<close>


lemma lookup_own_keys:
  "distinct (map fst p) \<Longrightarrow>
   map (\<lambda>k. case map_of p k of None \<Rightarrow> [] | Some v \<Rightarrow> v) (map fst p) = map snd p"
proof -
  assume d: "distinct (map fst p)"
  have "\<forall>kv \<in> set p. map_of p (fst kv) = Some (snd kv)"
    using d by (auto intro: map_of_is_SomeI)
  then show ?thesis by (simp add: map_idI comp_def cong: map_cong)
qed

lemma dict_to_list_uniform:
  "distinct (map fst p) \<Longrightarrow> map fst p = fieldnames \<Longrightarrow> dict_to_list fieldnames p = Inr (map snd p)"
  using lookup_own_keys[of p] by (auto simp: dict_to_list_def)

lemma writerows_uniform:
  "\<forall>p \<in> set ps. distinct (map fst p) \<and> map fst p = fieldnames \<Longrightarrow>
   writerows fieldnames ps = (map (map snd) ps, True)"
proof (induction ps)
  case Nil
  then show ?case by simp
next
  case (Cons p ps)
  from Cons.prems have "distinct (map fst p)" and "map fst p = fieldnames"
    by auto
  then have "dict_to_list fieldnames p = Inr (map snd p)"
    by (rule dict_to_list_uniform)
  moreover have "writerows fieldnames ps = (map (map snd) ps, True)"
    using Cons.prems by (intro Cons.IH) auto
  ultimately show ?case by simp
qed

lemma save_inventory_uniform:
  assumes "inventory s = first # rest" and "uniform_columns (inventory s)"
  shows "disk (save_inventory s) = Some \<lparr>header = map fst first, rows = map (map snd) (inventory s)\<rparr>"
proof -
  have "\<forall>p \<in> set (inventory s). distinct (map fst p) \<and> map fst p = map fst first"
    using assms by (simp add: uniform_columns_def list_all_iff)
  then have "writerows (map fst first) (inventory s) = (map (map snd) (inventory s), True)"
    by (rule writerows_uniform)
  then show ?thesis
    using assms(1) by (simp add: save_inventory_def Let_def)
qed

lemma read_back_uniform:
  assumes "recs = first # rest" and "uniform_columns recs"
  shows "read_dicts \<lparr>header = map fst first, rows = map (map snd) recs\<rparr> = recs"
proof -
  have u: "\<forall>p \<in> set recs. map fst p = map fst first" and ne: "first \<noteq> []"
    using assms by (simp_all add: uniform_columns_def list_all_iff)
  have "\<forall>p \<in> set recs. map snd p \<noteq> []"
    using u ne by (metis map_is_Nil_conv)
  then have f: "filter (\<lambda>r. r \<noteq> []) (map (map snd) recs) = map (map snd) recs"
    by (simp add: filter_id_conv)
  have "map (\<lambda>p. zip (map fst first) (map snd p)) recs = map (\<lambda>p. p) recs"
  proof (intro map_cong refl)
    fix x assume "x \<in> set recs"
    then have "map fst x = map fst first" using u by blast
    then show "zip (map fst first) (map snd x) = x"
      using zip_map_fst_snd[of x] by simp
  qed
  then show ?thesis
    by (simp add: read_dicts_def f comp_def)
qed

lemma persisted_save:
  assumes "inventory s \<noteq> []" and "uniform_columns (inventory s)"
  shows "\<exists>f. disk (save_inventory s) = Some f \<and> read_dicts f = inventory s"
proof -
  obtain first rest where c: "inventory s = first # rest"
    using assms(1) by (cases "inventory s") auto
  show ?thesis
    using save_inventory_uniform[OF c assms(2)] read_back_uniform[OF c assms(2)] by simp
qed

lemma disk_save_empty: "inventory s = [] \<Longrightarrow> disk (save_inventory s) = disk s"
  by (simp add: save_inventory_def)

lemma update_product_saved:
  assumes "update_product today i u s = Inr (True, s')"
  shows "\<exists>recs'. s' = print (UpdatedProduct i) (save_inventory (s\<lparr>inventory := recs'\<rparr>))"
  using update_product_inventory[OF assms] by auto

lemma delete_product_saved:
  assumes "delete_product i s = Inr (True, s')"
  shows "\<exists>recs'. s' = print (DeletedProduct i) (save_inventory (s\<lparr>inventory := recs'\<rparr>))"
  using assms by (auto simp: delete_product_def Let_def split: sum.splits if_splits)

lemma update_quantity_saved:
  assumes "update_quantity today i d s = Inr (True, s')"
  shows "\<exists>recs' m. s' = print m (print (UpdatedProduct i) (save_inventory (s\<lparr>inventory := recs'\<rparr>)))"
proof -
  obtain p cur b1 s1 where g: "get_product (inventory s) i = Inr (Some p)"
    and u: "update_product today i [(''quantity'', py_str (cur + d))] s = Inr (b1, s1)"
    and e: "s' = print (QuantityUpdated cur (cur + d)) s1"
    using assms
    by (auto simp: update_quantity_def Let_def split: sum.splits option.splits if_splits)
  obtain recs' where "update_first today i [(''quantity'', py_str (cur + d))] (inventory s) = Inr (Some recs')"
    using get_product_update_first[OF g] by blast
  then have "s1 = print (UpdatedProduct i) (save_inventory (s\<lparr>inventory := recs'\<rparr>))"
    using u by (simp add: update_product_def)
  then show ?thesis using e by blast
qed

lemma persisted_print_save:
  assumes "s' = print m (save_inventory s1)" and "inventory s' \<noteq> []" and "uniform_columns (inventory s')"
  shows "\<exists>f. disk s' = Some f \<and> read_dicts f = inventory s'"
  using assms persisted_save[of s1] by simp

section \<open>Records that share a product id\<close>

text \<open>
  Claim C9. When several records of the store have the same product id, \<^verbatim>\<open>get_product\<close>
  returns the first of them in store order and \<^verbatim>\<open>update_product\<close> changes only that first
  one, while \<^verbatim>\<open>delete_product\<close> removes every record with the id. The store is split at
  the first record \<open>p\<close> with the id \<open>i\<close>: no record of \<open>pre\<close> has it, any record of \<open>post\<close> may.
\<close>

theorem duplicates_first_match_and_delete_all:
  assumes "inventory s = pre @ p # post"
    and "\<forall>r \<in> set pre. has_other_id i r"
    and "product_id_is i p"
    and "\<forall>r \<in> set post. has_id r"
  shows "get_product (inventory s) i = Inr (Some p)
    \<and> (\<exists>s'. update_product today i updates s = Inr (True, s')
          \<and> inventory s' = pre @ setitem ''last_updated'' today (dict_update p updates) # post)
    \<and> (\<exists>s'. delete_product i s = Inr (True, s')
          \<and> inventory s' = pre @ filter (\<lambda>r. \<not> product_id_is i r) post)"
proof -
  have g: "get_product (inventory s) i = Inr (Some p)"
    using assms by (simp add: get_product_first)
  have u: "update_first today i updates (inventory s) =
      Inr (Some (pre @ setitem ''last_updated'' today (dict_update p updates) # post))"
    using assms by (simp add: update_first_first)
  have all_ids: "\<forall>r \<in> set (inventory s). has_id r"
    using assms by (auto dest: has_other_id_has_id product_id_is_has_id)
  have "filter (\<lambda>r. \<not> product_id_is i r) pre = pre"
    using assms(2) by (simp add: has_other_id_not_is)
  then have d: "remove_id i (inventory s) = Inr (pre @ filter (\<lambda>r. \<not> product_id_is i r) post)"
    using remove_id_filter[OF all_ids] assms(1,3) by simp
  have len: "length (pre @ filter (\<lambda>r. \<not> product_id_is i r) post) < length (inventory s)"
    using assms(1) length_filter_le[of "\<lambda>r. \<not> product_id_is i r" post]
    by (simp add: less_Suc_eq_le)
  show ?thesis
    using g u d len by (simp add: update_product_def delete_product_def Let_def)
qed

text \<open>
  In the store P002, P001, P001 the lookup finds the first P001, the update rewrites it
  and leaves the second, and the deletion leaves P002 alone.
\<close>

theorem duplicates_first_match_and_delete_all_witness:
  "inventory store_dup = [rec_P002] @ rec_P001 # [rec_P001_again]
   \<and> has_other_id ''P001'' rec_P002
   \<and> product_id_is ''P001'' rec_P001
   \<and> has_id rec_P001_again
   \<and> get_product (inventory store_dup) ''P001'' = Inr (Some rec_P001)
   \<and> (\<exists>s'. update_product ''2024-02-02'' ''P001'' [(''quantity'', ''7'')] store_dup = Inr (True, s')
        \<and> inventory s' =
            [rec_P002,
             [(''product_id'', ''P001''), (''product_name'', ''Laptop''),
              (''category'', ''Electronics''), (''quantity'', ''7''), (''unit_price'', ''100''),
              (''reorder_level'', ''5''), (''supplier'', ''Acme''),
              (''warehouse_location'', ''A1''), (''last_updated'', ''2024-02-02'')],
             rec_P001_again])
   \<and> (\<exists>s'. delete_product ''P001'' store_dup = Inr (True, s') \<and> inventory s' = [rec_P002])"
proof -
  have h1: "inventory store_dup = [rec_P002] @ rec_P001 # [rec_P001_again]"
    by (simp add: store_dup_def)
  have h2: "\<forall>r \<in> set [rec_P002]. has_other_id ''P001'' r"
    by (simp add: rec_P002_def has_other_id_def)
  have h3: "product_id_is ''P001'' rec_P001"
    by (simp add: rec_P001_def product_id_is_def)
  have h4: "\<forall>r \<in> set [rec_P001_again]. has_id r"
    by (simp add: rec_P001_again_def has_id_def)
  have e1: "setitem ''last_updated'' ''2024-02-02'' (dict_update rec_P001 [(''quantity'', ''7'')]) =
      [(''product_id'', ''P001''), (''product_name'', ''Laptop''),
       (''category'', ''Electronics''), (''quantity'', ''7''), (''unit_price'', ''100''),
       (''reorder_level'', ''5''), (''supplier'', ''Acme''),
       (''warehouse_location'', ''A1''), (''last_updated'', ''2024-02-02'')]"
    by (simp add: rec_P001_def setitem_def dict_update_def)
  have e2: "filter (\<lambda>r. \<not> product_id_is ''P001'' r) [rec_P001_again] = []"
    by (simp add: rec_P001_again_def product_id_is_def)
  show ?thesis
    using duplicates_first_match_and_delete_all
      [OF h1 h2 h3 h4, of "''2024-02-02''" "[(''quantity'', ''7'')]"] h1 h2 h3 h4 e1 e2
    by simp
qed

section \<open>Duplicate product ids\<close>

text \<open>
  Claim C1 as stated does not hold of \<^verbatim>\<open>add_product\<close>: the method appends whatever it is
  given. Adding a second record with the id P001 to a store that holds P001 succeeds and
  the store grows to two records with the same id.
\<close>

theorem add_product_duplicate_counterexample:
  "inventory store_one = [rec_P001]
   \<and> product_id_is ''P001'' rec_P001
   \<and> product_id_is ''P001'' rec_P001_again
   \<and> inventory (add_product ''2024-03-03'' rec_P001_again store_one)
        = [rec_P001, setitem ''last_updated'' ''2024-03-03'' rec_P001_again]
   \<and> length (inventory (add_product ''2024-03-03'' rec_P001_again store_one)) = 2
   \<and> \<not> unique_ids (inventory (add_product ''2024-03-03'' rec_P001_again store_one))"
  by (simp add: inventory_add_product store_one_def product_id_is_def rec_P001_def
      rec_P001_again_def unique_ids_def setitem_def)

text \<open>
  Claim C1, amended. The check for an existing id is made by the command handler
  \<^verbatim>\<open>handle_add_product\<close>, before it calls \<^verbatim>\<open>add_product\<close>. When the id typed (stripped) is
  already in the store, the handler leaves the inventory and the file as they are, and
  with every field filled in it reports the id as already existing. Consequently a run of
  adds through the handler keeps the ids of the store pairwise distinct.
\<close>

theorem add_handler_rejects_duplicate_ids:
  "(get_product (inventory s) (py_strip (in_product_id f)) = Inr (Some r) \<longrightarrow>
      inventory (handle_add_product today f s) = inventory s
      \<and> disk (handle_add_product today f s) = disk s
      \<and> (list_all (\<lambda>v. v \<noteq> []) (map snd (form_data f)) \<longrightarrow>
           handle_add_product today f s = print (IdAlreadyExists (py_strip (in_product_id f))) s))
   \<and> (unique_ids (inventory s) \<longrightarrow> unique_ids (inventory (handle_adds fs s)))"
  using handle_add_product_duplicate[of s f r today] handle_adds_unique[of s fs]
  by auto

theorem add_handler_rejects_duplicate_ids_witness:
  "get_product (inventory store_one) (py_strip (in_product_id form_P001)) = Inr (Some rec_P001)
   \<and> list_all (\<lambda>v. v \<noteq> []) (map snd (form_data form_P001))
   \<and> handle_add_product ''2024-03-03'' form_P001 store_one = print (IdAlreadyExists ''P001'') store_one
   \<and> inventory (handle_add_product ''2024-03-03'' form_P001 store_one) = [rec_P001]
   \<and> disk (handle_add_product ''2024-03-03'' form_P001 store_one) = Some file_one
   \<and> unique_ids (inventory store_one)
   \<and> unique_ids (inventory (handle_adds [(''2024-03-03'', form_P001), (''2024-03-04'', form_negative)] store_one))"
proof -
  have s: "py_strip (in_product_id form_P001) = ''P001''"
    by (simp add: form_P001_def py_strip_def strip_with_def is_strip_space_def is_space_def)
  have g: "get_product (inventory store_one) (py_strip (in_product_id form_P001)) = Inr (Some rec_P001)"
    unfolding s by (simp add: store_one_def rec_P001_def getitem_def)
  have a: "list_all (\<lambda>v. v \<noteq> []) (map snd (form_data form_P001))"
    by (simp add: form_data_def form_P001_def py_strip_def strip_with_def is_strip_space_def is_space_def)
  have i: "inventory store_one = [rec_P001]" and d: "disk store_one = Some file_one"
    by (simp_all add: store_one_def)
  have u: "unique_ids (inventory store_one)"
    by (simp add: unique_ids_def store_one_def rec_P001_def has_id_def)
  note T = add_handler_rejects_duplicate_ids
      [of store_one form_P001 rec_P001 "''2024-03-03''"
          "[(''2024-03-03'', form_P001), (''2024-03-04'', form_negative)]"]
  have c1: "inventory (handle_add_product ''2024-03-03'' form_P001 store_one) = [rec_P001]"
    using T g i by simp
  have c2: "disk (handle_add_product ''2024-03-03'' form_P001 store_one) = Some file_one"
    using T g d by simp
  have c3: "handle_add_product ''2024-03-03'' form_P001 store_one
              = print (IdAlreadyExists ''P001'') store_one"
    using T g a s by simp
  have c4: "unique_ids (inventory (handle_adds
              [(''2024-03-03'', form_P001), (''2024-03-04'', form_negative)] store_one))"
    using T u by blast
  show ?thesis
    by (intro conjI g a c3 c1 c2 u c4)
qed

section \<open>Quantities below zero\<close>

text \<open>
  Claim C2 as stated does not hold: \<^verbatim>\<open>add_product\<close> and \<^verbatim>\<open>update_product\<close> store the
  quantity they are given, and the add handler only asks for a non-empty text. A record
  with the quantity -5 enters the store through \<^verbatim>\<open>add_product\<close> and through the handler,
  and \<^verbatim>\<open>update_product\<close> sets the quantity of P001 to -3.
\<close>

theorem quantity_nonneg_counterexample:
  "\<not> quantities_nonneg (inventory (add_product ''2024-03-04'' rec_negative store_empty))
   \<and> \<not> quantities_nonneg (inventory (handle_add_product ''2024-03-04'' form_negative store_empty))
   \<and> (\<exists>s'. update_product ''2024-03-04'' ''P001'' [(''quantity'', ''-3'')] store_two = Inr (True, s')
         \<and> \<not> quantities_nonneg (inventory s'))"
proof (intro conjI)
  have q: "int_field (setitem ''last_updated'' ''2024-03-04'' rec_negative) ''quantity'' = Inr (- 5)"
    by (simp add: int_field_setitem_other int_field_examples)
  show "\<not> quantities_nonneg (inventory (add_product ''2024-03-04'' rec_negative store_empty))"
    by (simp add: inventory_add_product store_empty_def quantities_nonneg_def field_int_def q)
  have f: "form_data form_negative = rec_negative"
    by (simp add: form_data_def form_negative_def rec_negative_def py_strip_def strip_with_def
        is_strip_space_def is_space_def)
  have "handle_add_product ''2024-03-04'' form_negative store_empty
          = add_product ''2024-03-04'' rec_negative store_empty"
    unfolding handle_add_product_def f Let_def
    by (simp add: store_empty_def rec_negative_def form_negative_def py_strip_def strip_with_def
        is_strip_space_def is_space_def)
  then show "\<not> quantities_nonneg (inventory (handle_add_product ''2024-03-04'' form_negative store_empty))"
    by (simp add: inventory_add_product store_empty_def quantities_nonneg_def field_int_def q)
  have "int_field (setitem ''last_updated'' ''2024-03-04'' (dict_update rec_P001 [(''quantity'', ''-3'')]))
          ''quantity'' = Inr (- 3)"
    by (simp add: dict_update_single int_field_setitem_other)
       (simp add: int_field_def getitem_def map_of_setitem py_int_def
          strip_with_def is_space_def parse_digits_def is_digit_def digit_val_def)
  then show "\<exists>s'. update_product ''2024-03-04'' ''P001'' [(''quantity'', ''-3'')] store_two = Inr (True, s')
         \<and> \<not> quantities_nonneg (inventory s')"
    by (simp add: update_product_def update_first_store_two quantities_nonneg_def field_int_def)
qed

text \<open>
  Claim C2, amended. The quantity adjustment \<^verbatim>\<open>update_quantity\<close> and \<^verbatim>\<open>delete_product\<close>
  keep the invariant: when every record's quantity is a number that is not negative, it
  is so again in the store they return.
\<close>

theorem adjust_and_delete_keep_quantities_nonneg:
  assumes "quantities_nonneg (inventory s)"
  shows "(update_quantity today i d s = Inr (b, s') \<longrightarrow> quantities_nonneg (inventory s'))
       \<and> (delete_product i s = Inr (b, s') \<longrightarrow> quantities_nonneg (inventory s'))"
  using assms update_quantity_nonneg delete_product_nonneg by blast

theorem adjust_and_delete_keep_quantities_nonneg_witness:
  "quantities_nonneg (inventory store_two)
   \<and> (\<exists>s'. update_quantity ''2024-03-04'' ''P001'' (- 10) store_two = Inr (True, s')
         \<and> quantities_nonneg (inventory s'))
   \<and> (\<exists>s'. delete_product ''P002'' store_two = Inr (True, s') \<and> quantities_nonneg (inventory s'))"
proof -
  have ne: "rec_P001 \<noteq> []"
    by (simp add: rec_P001_def)
  have u: "\<exists>s'. update_quantity ''2024-03-04'' ''P001'' (- 10) store_two = Inr (True, s')"
    by (simp add: update_quantity_def get_product_store_two int_field_examples
        update_product_def update_first_store_two ne)
  have "remove_id ''P002'' (inventory store_two) = Inr [rec_P001]"
    by (simp add: store_two_def rec_P001_def rec_P002_def getitem_def)
  then have d: "\<exists>s'. delete_product ''P002'' store_two = Inr (True, s')"
    by (simp add: delete_product_def Let_def) (simp add: store_two_def)
  show ?thesis
    using u d store_two_nonneg
      adjust_and_delete_keep_quantities_nonneg [OF store_two_nonneg]
    by blast
qed

section \<open>Adjusting a quantity\<close>

text \<open>
  Claim C3 as stated does not hold in its last clause: \<^verbatim>\<open>update_quantity\<close> returns True,
  not the new quantity. Taking 5 from the 10 of P001 returns True, which as a number is 1
  and not 5; the new quantity is stored in the record and printed.
\<close>

theorem adjust_quantity_returns_bool_counterexample:
  "get_product (inventory store_two) ''P001'' = Inr (Some rec_P001)
   \<and> int_field rec_P001 ''quantity'' = Inr 10
   \<and> (\<exists>s'. update_quantity ''2024-03-04'' ''P001'' (- 5) store_two = Inr (True, s'))
   \<and> bool_as_int True \<noteq> 10 + (- 5)"
proof -
  have ne: "rec_P001 \<noteq> []"
    by (simp add: rec_P001_def)
  have "\<exists>s'. update_quantity ''2024-03-04'' ''P001'' (- 5) store_two = Inr (True, s')"
    by (simp add: update_quantity_def get_product_store_two int_field_examples
        update_product_def update_first_store_two ne)
  then show ?thesis
    by (simp add: get_product_store_two int_field_examples bool_as_int_def)
qed

text \<open>
  Claim C3, amended. Let \<open>p\<close> be the first record with the id \<open>i\<close> and \<open>cur\<close> its quantity.
  If \<open>cur + d\<close> is negative, \<^verbatim>\<open>update_quantity\<close> returns False and changes nothing but the
  console, where it reports the refusal: the inventory and the file are as before.
  Otherwise it returns True, the quantity of \<open>p\<close> becomes \<open>cur + d\<close> (and \<open>p\<close> is stamped),
  the other records are untouched, and the last line printed shows the old and the new
  quantity.
\<close>

theorem adjust_quantity_guard:
  assumes "inventory s = pre @ p # post"
    and "\<forall>r \<in> set pre. has_other_id i r"
    and "product_id_is i p"
    and "int_field p ''quantity'' = Inr cur"
  shows "(cur + d < 0 \<longrightarrow>
            update_quantity today i d s
              = Inr (False, s\<lparr>console := console s @ [CannotReduceBelowZero cur d]\<rparr>))
       \<and> (0 \<le> cur + d \<longrightarrow>
            (\<exists>s'. update_quantity today i d s = Inr (True, s')
               \<and> inventory s' =
                   pre @ setitem ''last_updated'' today (setitem ''quantity'' (py_str (cur + d)) p) # post
               \<and> int_field (setitem ''last_updated'' today (setitem ''quantity'' (py_str (cur + d)) p))
                     ''quantity'' = Inr (cur + d)
               \<and> last (console s') = QuantityUpdated cur (cur + d)))"
proof -
  have g: "get_product (inventory s) i = Inr (Some p)"
    using assms by (simp add: get_product_first)
  have ne: "p \<noteq> []"
    using assms(3) by (rule product_id_is_nonempty)
  have u: "update_first today i [(''quantity'', py_str (cur + d))] (inventory s) =
      Inr (Some (pre @ setitem ''last_updated'' today (setitem ''quantity'' (py_str (cur + d)) p) # post))"
    using assms update_first_first[of pre i p today "[(''quantity'', py_str (cur + d))]" post]
    by (simp add: dict_update_single)
  have q: "int_field (setitem ''last_updated'' today (setitem ''quantity'' (py_str (cur + d)) p))
             ''quantity'' = Inr (cur + d)"
    using quantity_after_adjust[of today p "cur + d"] by (simp add: dict_update_single)
  show ?thesis
    using g ne u q assms(4)
    by (simp add: update_quantity_def update_product_def Let_def print_def)
qed

text \<open>
  The scenario of the specification: taking 10 from the 5 of P002 is refused; taking 2
  leaves 3.
\<close>

theorem adjust_quantity_guard_witness:
  "inventory store_two = [rec_P001] @ rec_P002 # []
   \<and> has_other_id ''P002'' rec_P001
   \<and> product_id_is ''P002'' rec_P002
   \<and> int_field rec_P002 ''quantity'' = Inr 5
   \<and> update_quantity ''2024-03-04'' ''P002'' (- 10) store_two
        = Inr (False, store_two\<lparr>console := console store_two @ [CannotReduceBelowZero 5 (- 10)]\<rparr>)
   \<and> (\<exists>s'. update_quantity ''2024-03-04'' ''P002'' (- 2) store_two = Inr (True, s')
         \<and> inventory s' =
             [rec_P001,
              [(''product_id'', ''P002''), (''product_name'', ''Mouse''),
               (''category'', ''Accessories''), (''quantity'', ''3''), (''unit_price'', ''50''),
               (''reorder_level'', ''5''), (''supplier'', ''Bolt''), (''warehouse_location'', ''B2''),
               (''last_updated'', ''2024-03-04'')]]
         \<and> last (console s') = QuantityUpdated 5 3)"
proof -
  have h1: "inventory store_two = [rec_P001] @ rec_P002 # []"
    by (simp add: store_two_def)
  have h2: "\<forall>r \<in> set [rec_P001]. has_other_id ''P002'' r"
    by (simp add: rec_P001_def has_other_id_def)
  have h3: "product_id_is ''P002'' rec_P002"
    by (simp add: rec_P002_def product_id_is_def)
  have h4: "int_field rec_P002 ''quantity'' = Inr 5"
    by (rule int_field_examples)
  note T = adjust_quantity_guard [OF h1 h2 h3 h4]
  have c1: "update_quantity ''2024-03-04'' ''P002'' (- 10) store_two
        = Inr (False, store_two\<lparr>console := console store_two @ [CannotReduceBelowZero 5 (- 10)]\<rparr>)"
    using T [of "- 10" "''2024-03-04''"] by simp
  have s3: "py_str 3 = ''3''"
    by code_simp
  have e: "setitem ''last_updated'' ''2024-03-04'' (setitem ''quantity'' ''3'' rec_P002) =
      [(''product_id'', ''P002''), (''product_name'', ''Mouse''),
       (''category'', ''Accessories''), (''quantity'', ''3''), (''unit_price'', ''50''),
       (''reorder_level'', ''5''), (''supplier'', ''Bolt''), (''warehouse_location'', ''B2''),
       (''last_updated'', ''2024-03-04'')]"
    by (simp add: rec_P002_def setitem_def)
  have c2: "\<exists>s'. update_quantity ''2024-03-04'' ''P002'' (- 2) store_two = Inr (True, s')
         \<and> inventory s' =
             [rec_P001,
              [(''product_id'', ''P002''), (''product_name'', ''Mouse''),
               (''category'', ''Accessories''), (''quantity'', ''3''), (''unit_price'', ''50''),
               (''reorder_level'', ''5''), (''supplier'', ''Bolt''), (''warehouse_location'', ''B2''),
               (''last_updated'', ''2024-03-04'')]]
         \<and> last (console s') = QuantityUpdated 5 3"
    using T [of "- 2" "''2024-03-04''"] by (auto simp: s3 e)
  have h2': "has_other_id ''P002'' rec_P001"
    using h2 by simp
  show ?thesis
    by (intro conjI h1 h2' h3 h4 c1 c2)
qed

section \<open>Persistence after a mutation\<close>

text \<open>
  Claim C4 as stated does not hold for a delete that empties the store:
  \<^verbatim>\<open>save_inventory\<close> returns at once on an empty inventory, with a warning. Deleting P001
  from the store that holds only P001 succeeds and leaves the inventory empty, while the
  file still holds the row of P001.
\<close>

theorem delete_last_record_not_persisted_counterexample:
  "(\<exists>s'. delete_product ''P001'' store_one = Inr (True, s')
       \<and> inventory s' = [] \<and> disk s' = Some file_one)
   \<and> read_dicts file_one = [rec_P001]"
proof -
  have "remove_id ''P001'' (inventory store_one) = Inr []"
    by (simp add: store_one_def rec_P001_def getitem_def)
  then have "\<exists>s'. delete_product ''P001'' store_one = Inr (True, s')
       \<and> inventory s' = [] \<and> disk s' = Some file_one"
    by (simp add: delete_product_def Let_def disk_save_empty) (simp add: store_one_def)
  moreover have "read_dicts file_one = [rec_P001]"
    by (simp add: read_dicts_def file_one_def rec_P001_def)
  ultimately show ?thesis by simp
qed

text \<open>
  Claim C4, amended. After \<^verbatim>\<open>add_product\<close> and after a successful \<^verbatim>\<open>update_product\<close>,
  \<^verbatim>\<open>delete_product\<close> or \<^verbatim>\<open>update_quantity\<close> that leaves the store non-empty, the whole
  inventory has been written: read back, the file gives the in-memory sequence (for
  records that share the columns of the first one, which are the header). A delete that
  leaves the store empty writes nothing: the file is as it was before. This is under the
  assumptions of the state: the path of the data file has a directory part, so that
  \<^verbatim>\<open>os.makedirs\<close> succeeds, and the file can be opened and written; a persistence fault is
  reported and leaves the file behind the inventory.
\<close>

theorem persisted_after_mutation:
  "((s' = add_product today p s
       \<or> update_product today i u s = Inr (True, s')
       \<or> delete_product i s = Inr (True, s')
       \<or> update_quantity today i d s = Inr (True, s'))
     \<and> inventory s' \<noteq> [] \<and> uniform_columns (inventory s')
     \<longrightarrow> (\<exists>f. disk s' = Some f \<and> read_dicts f = inventory s'))
   \<and> (delete_product i s = Inr (True, s') \<and> inventory s' = [] \<longrightarrow> disk s' = disk s)"
proof (intro conjI impI)
  assume a: "(s' = add_product today p s
       \<or> update_product today i u s = Inr (True, s')
       \<or> delete_product i s = Inr (True, s')
       \<or> update_quantity today i d s = Inr (True, s'))
     \<and> inventory s' \<noteq> [] \<and> uniform_columns (inventory s')"
  then have ne: "inventory s' \<noteq> []" and un: "uniform_columns (inventory s')" by simp_all
  from a consider (add) "s' = add_product today p s"
    | (upd) "update_product today i u s = Inr (True, s')"
    | (del) "delete_product i s = Inr (True, s')"
    | (adj) "update_quantity today i d s = Inr (True, s')" by blast
  then show "\<exists>f. disk s' = Some f \<and> read_dicts f = inventory s'"
  proof cases
    case add
    then obtain m s1 where "s' = print m (save_inventory s1)"
      by (auto simp: add_product_def Let_def)
    then show ?thesis using ne un by (rule persisted_print_save)
  next
    case upd
    then obtain recs' where "s' = print (UpdatedProduct i) (save_inventory (s\<lparr>inventory := recs'\<rparr>))"
      using update_product_saved by blast
    then show ?thesis using ne un by (rule persisted_print_save)
  next
    case del
    then obtain recs' where "s' = print (DeletedProduct i) (save_inventory (s\<lparr>inventory := recs'\<rparr>))"
      using delete_product_saved by blast
    then show ?thesis using ne un by (rule persisted_print_save)
  next
    case adj
    then obtain recs' m where
      e: "s' = print m (print (UpdatedProduct i) (save_inventory (s\<lparr>inventory := recs'\<rparr>)))"
      using update_quantity_saved by blast
    let ?s1 = "print (UpdatedProduct i) (save_inventory (s\<lparr>inventory := recs'\<rparr>))"
    have "\<exists>f. disk ?s1 = Some f \<and> read_dicts f = inventory ?s1"
      using ne un e by (intro persisted_print_save[of ?s1]) simp_all
    then show ?thesis using e by simp
  qed
next
  assume "delete_product i s = Inr (True, s') \<and> inventory s' = []"
  then obtain recs' where "s' = print (DeletedProduct i) (save_inventory (s\<lparr>inventory := recs'\<rparr>))"
    and "inventory s' = []"
    using delete_product_saved by blast
  then show "disk s' = disk s"
    by (simp add: disk_save_empty)
qed

theorem persisted_after_mutation_witness:
  "inventory (add_product ''2024-01-01'' rec_P002 store_one) = [rec_P001, rec_P002]
   \<and> uniform_columns (inventory (add_product ''2024-01-01'' rec_P002 store_one))
   \<and> (\<exists>f. disk (add_product ''2024-01-01'' rec_P002 store_one) = Some f
         \<and> read_dicts f = [rec_P001, rec_P002])
   \<and> (\<exists>s'. delete_product ''P001'' store_one = Inr (True, s') \<and> inventory s' = []
         \<and> disk s' = disk store_one)"
proof -
  let ?s = "add_product ''2024-01-01'' rec_P002 store_one"
  have i: "inventory ?s = [rec_P001, rec_P002]"
    by (simp add: inventory_add_product store_one_def) (simp add: rec_P002_def setitem_def)
  have u: "uniform_columns (inventory ?s)"
    unfolding i by (simp add: uniform_columns_def rec_P001_def rec_P002_def)
  have ne: "inventory ?s \<noteq> []"
    unfolding i by simp
  have c: "\<exists>f. disk ?s = Some f \<and> read_dicts f = [rec_P001, rec_P002]"
    using persisted_after_mutation
      [of ?s "''2024-01-01''" rec_P002 store_one] u ne i by simp
  have "remove_id ''P001'' (inventory store_one) = Inr []"
    by (simp add: store_one_def rec_P001_def getitem_def)
  then obtain s' where d: "delete_product ''P001'' store_one = Inr (True, s')" "inventory s' = []"
    by (simp add: delete_product_def Let_def) (simp add: store_one_def)
  then have "disk s' = disk store_one"
    using persisted_after_mutation [of s' _ _ store_one "''P001''"] by blast
  then have e: "\<exists>s'. delete_product ''P001'' store_one = Inr (True, s') \<and> inventory s' = []
         \<and> disk s' = disk store_one"
    using d by blast
  show ?thesis
    by (intro conjI i u c e)
qed

section \<open>Low stock\<close>

lemma low_stock_loop_filter:
  "\<forall>p \<in> set ps. parses_int p ''quantity'' \<and> parses_int p ''reorder_level'' \<Longrightarrow>
   low_stock_loop ps acc =
     Inr (acc @ filter (\<lambda>p. field_int p ''quantity'' \<le> field_int p ''reorder_level'') ps)"
  by (induction ps arbitrary: acc) (simp_all add: int_field_parsed)

text \<open>
  Claim C8. For a store whose quantities and reorder levels are numbers,
  \<^verbatim>\<open>get_low_stock_items\<close> returns exactly the records with quantity at most the reorder
  level, in store order; a record whose quantity equals its reorder level is among them.
\<close>

theorem low_stock_items_inclusive:
  assumes "\<forall>p \<in> set recs. parses_int p ''quantity'' \<and> parses_int p ''reorder_level''"
  shows "get_low_stock_items recs =
           Inr (filter (\<lambda>p. field_int p ''quantity'' \<le> field_int p ''reorder_level'') recs)
         \<and> (\<forall>p \<in> set recs. field_int p ''quantity'' = field_int p ''reorder_level'' \<longrightarrow>
              (\<exists>found. get_low_stock_items recs = Inr found \<and> p \<in> set found))"
  using assms by (simp add: get_low_stock_items_def low_stock_loop_filter)

text \<open>The scenario of the specification: P001 (10 above 5) is left out, P002 (5 at 5) is in.\<close>

theorem low_stock_items_inclusive_witness:
  "parses_int rec_P001 ''quantity'' \<and> parses_int rec_P001 ''reorder_level''
   \<and> parses_int rec_P002 ''quantity'' \<and> parses_int rec_P002 ''reorder_level''
   \<and> get_low_stock_items [rec_P001, rec_P002] = Inr [rec_P002]
   \<and> field_int rec_P002 ''quantity'' = field_int rec_P002 ''reorder_level''"
proof -
  have q1: "int_field rec_P001 ''quantity'' = Inr 10"
    by (simp add: rec_P001_def int_field_def getitem_def py_int_def strip_with_def is_space_def
        parse_digits_def is_digit_def digit_val_def)
  have r1: "int_field rec_P001 ''reorder_level'' = Inr 5"
    by (simp add: rec_P001_def int_field_def getitem_def py_int_def strip_with_def is_space_def
        parse_digits_def is_digit_def digit_val_def)
  have q2: "int_field rec_P002 ''quantity'' = Inr 5"
    by (simp add: rec_P002_def int_field_def getitem_def py_int_def strip_with_def is_space_def
        parse_digits_def is_digit_def digit_val_def)
  have r2: "int_field rec_P002 ''reorder_level'' = Inr 5"
    by (simp add: rec_P002_def int_field_def getitem_def py_int_def strip_with_def is_space_def
        parse_digits_def is_digit_def digit_val_def)
  have h: "\<forall>p \<in> set [rec_P001, rec_P002]. parses_int p ''quantity'' \<and> parses_int p ''reorder_level''"
    by (simp add: parses_int_def q1 r1 q2 r2)
  show ?thesis
    using low_stock_items_inclusive [OF h] h
    by (simp add: field_int_def q1 r1 q2 r2)
qed

section \<open>Search\<close>

lemma py_in_empty: "py_in [] s"
  by (cases s) simp_all

lemma search_loop_empty:
  "\<forall>p \<in> set ps. map_of p ''product_name'' \<noteq> None \<Longrightarrow> search_loop [] ps acc = Inr (acc @ ps)"
  by (induction ps arbitrary: acc) (auto simp: getitem_def py_in_empty)

text \<open>
  Claim C10. For a store whose records have a product name, \<^verbatim>\<open>search_products\<close> with the
  empty keyword returns the whole record sequence in store order. The method reads
  \<^verbatim>\<open>self.inventory\<close> and assigns nothing, so its model is a function of the record list
  alone and the store is as before.
\<close>

theorem search_empty_keyword_returns_all:
  assumes "\<forall>p \<in> set recs. map_of p ''product_name'' \<noteq> None"
  shows "search_products recs [] = Inr recs"
  using assms by (simp add: search_products_def py_lower_def search_loop_empty)

theorem search_empty_keyword_returns_all_witness:
  "map_of rec_P001 ''product_name'' = Some ''Laptop''
   \<and> map_of rec_P002 ''product_name'' = Some ''Mouse''
   \<and> search_products [rec_P001, rec_P002] [] = Inr [rec_P001, rec_P002]"
proof -
  have h: "\<forall>p \<in> set [rec_P001, rec_P002]. map_of p ''product_name'' \<noteq> None"
    by (simp add: rec_P001_def rec_P002_def)
  show ?thesis
    using search_empty_keyword_returns_all [OF h] by (simp add: rec_P001_def rec_P002_def)
qed

section \<open>Rounding to a double\<close>



lemma bit_length_bounds:
  "0 < n \<Longrightarrow> 2 ^ (bit_length n - 1) \<le> n \<and> n < 2 ^ bit_length n"
proof (induction n rule: bit_length.induct)
  case (1 n)
  show ?case
  proof (cases "n div 2 = 0")
    case True
    then have "n = 1" using 1(2) by presburger
    then show ?thesis by (simp add: bit_length.simps)
  next
    case False
    then have ih: "2 ^ (bit_length (n div 2) - 1) \<le> n div 2" "n div 2 < 2 ^ bit_length (n div 2)"
      using 1 by simp_all
    have pos: "0 < bit_length (n div 2)"
      using False by (subst bit_length.simps) simp
    have bl: "bit_length n = Suc (bit_length (n div 2))"
      using 1(2) by (subst bit_length.simps) simp
    have "(2::nat) ^ bit_length (n div 2) = 2 * 2 ^ (bit_length (n div 2) - 1)"
      using pos by (cases "bit_length (n div 2)") simp_all
    then have "(2::nat) ^ bit_length (n div 2) \<le> 2 * (n div 2)"
      using ih(1) by simp
    then have lo: "(2::nat) ^ bit_length (n div 2) \<le> n" by presburger
    have hi: "n < 2 * 2 ^ bit_length (n div 2)"
      using ih(2) by presburger
    show ?thesis using lo hi bl by simp
  qed
qed

lemma pow2_powi: "pow2 e = 2 powi e"
  by (simp add: pow2_def power_int_def field_simps)

lemma pow2_pos: "0 < pow2 e"
  by (simp add: pow2_powi)


lemma pow2_add: "pow2 (a + b) = pow2 a * pow2 b"
  by (simp add: pow2_powi power_int_add)

lemma pow2_diff: "pow2 (a - b) = pow2 a / pow2 b"
  by (simp add: pow2_powi power_int_diff)

lemma pow2_nat: "pow2 (int k) = 2 ^ k"
  by (simp add: pow2_def)

lemma pow2_mono: "a \<le> b \<Longrightarrow> pow2 a \<le> pow2 b"
  by (simp add: pow2_powi power_int_increasing)

lemma round_half_even_of_int: "round_half_even (of_int m) = m"
  by (simp add: round_half_even_def)

lemma round_half_even_upper: "of_int (round_half_even x) \<le> x + 1 / 2"
proof -
  have f: "of_int \<lfloor>x\<rfloor> \<le> x + 1 / 2"
    using of_int_floor_le[of x] by linarith
  show ?thesis
  proof (cases "x - of_int \<lfloor>x\<rfloor> < 1 / 2")
    case True
    then have "round_half_even x = \<lfloor>x\<rfloor>" by (simp add: round_half_even_def Let_def)
    then show ?thesis using f by simp
  next
    case False
    then have "round_half_even x = \<lfloor>x\<rfloor> \<or> round_half_even x = \<lfloor>x\<rfloor> + 1"
      by (simp add: round_half_even_def Let_def)
    moreover have "of_int (\<lfloor>x\<rfloor> + 1) \<le> x + 1 / 2" using False by simp
    ultimately show ?thesis using f by fastforce
  qed
qed

lemma round_half_even_nonneg: "0 \<le> x \<Longrightarrow> 0 \<le> round_half_even x"
  by (auto simp: round_half_even_def Let_def)

lemma nat_pow2_bounds:
  assumes "0 < (a::int)"
  shows "pow2 (int (bit_length (nat a)) - 1) \<le> of_int a \<and> of_int a < pow2 (int (bit_length (nat a)))"
proof -
  let ?l = "bit_length (nat a)"
  have b: "2 ^ (?l - 1) \<le> nat a" "nat a < 2 ^ ?l"
    using bit_length_bounds[of "nat a"] assms by simp_all
  have l: "0 < ?l" using assms by (subst bit_length.simps) simp
  have e: "(of_nat (nat a) :: rat) = of_int a" using assms by simp
  have "(2::rat) ^ (?l - 1) \<le> of_nat (nat a)"
    using b(1) by (metis of_nat_le_iff of_nat_numeral of_nat_power)
  moreover have "pow2 (int ?l - 1) = 2 ^ (?l - 1)"
  proof -
    have "int ?l - 1 = int (?l - 1)" using l by linarith
    then show ?thesis by (simp only: pow2_nat)
  qed
  moreover have "(of_nat (nat a) :: rat) < 2 ^ ?l"
    using b(2) by (metis of_nat_less_iff of_nat_numeral of_nat_power)
  ultimately show ?thesis by (simp only: e pow2_nat)
qed

lemma float_exponent_bounds:
  assumes "0 < x"
  shows "pow2 (float_exponent x) \<le> x \<and> x < pow2 (float_exponent x + 1)"
proof -
  obtain a b where q: "quotient_of x = (a, b)" by (cases "quotient_of x")
  have b: "0 < b" using q by (rule quotient_of_denom_pos)
  have x: "x = of_int a / of_int b" using q by (rule quotient_of_div)
  have a: "0 < a" using assms b x by (simp add: zero_less_divide_iff)
  let ?la = "bit_length (nat a)" and ?lb = "bit_length (nat b)"
  let ?d = "int ?la - int ?lb"
  have ba: "2 ^ (?la - 1) \<le> nat a" "nat a < 2 ^ ?la"
    using bit_length_bounds[of "nat a"] a by simp_all
  have bb: "2 ^ (?lb - 1) \<le> nat b" "nat b < 2 ^ ?lb"
    using bit_length_bounds[of "nat b"] b by simp_all
  have la: "0 < ?la" using a by (subst bit_length.simps) simp
  have lb: "0 < ?lb" using b by (subst bit_length.simps) simp
  have ra: "pow2 (int ?la - 1) \<le> of_int a" "of_int a < pow2 (int ?la)"
    using nat_pow2_bounds[OF a] by simp_all
  have rb: "pow2 (int ?lb - 1) \<le> of_int b" "of_int b < pow2 (int ?lb)"
    using nat_pow2_bounds[OF b] by simp_all
  have bpos: "(0::rat) < of_int b" using b by simp
  have lower: "pow2 (?d - 1) \<le> x"
  proof -
    have "pow2 (?d - 1) * of_int b \<le> pow2 (?d - 1) * pow2 (int ?lb)"
      using rb(2) pow2_pos[of "?d - 1"] by (simp add: less_imp_le)
    also have "\<dots> = pow2 (int ?la - 1)"
      by (simp add: pow2_add[symmetric])
    also have "\<dots> \<le> of_int a" by (rule ra(1))
    finally show ?thesis using bpos by (simp add: x pos_le_divide_eq)
  qed
  have upper: "x < pow2 (?d + 1)"
  proof -
    have "of_int a < pow2 (int ?la)" by (rule ra(2))
    also have "\<dots> = pow2 (?d + 1) * pow2 (int ?lb - 1)"
      by (simp add: pow2_add[symmetric])
    also have "\<dots> \<le> pow2 (?d + 1) * of_int b"
      using rb(1) pow2_pos[of "?d + 1"] by simp
    finally show ?thesis using bpos by (simp add: x pos_divide_less_eq)
  qed
  show ?thesis
  proof (cases "pow2 ?d \<le> x")
    case True
    then show ?thesis using upper q by (simp add: float_exponent_def Let_def)
  next
    case False
    then show ?thesis using lower q by (simp add: float_exponent_def Let_def)
  qed
qed

lemma pow2_less_cancel: "pow2 a < pow2 b \<Longrightarrow> a < b"
  using pow2_mono[of b a] by (cases "a < b") auto

lemma round_half_even_lower: "\<lfloor>x\<rfloor> \<le> round_half_even x"
  by (simp add: round_half_even_def Let_def)

lemma float_exponent_unique:
  assumes "0 < x" and "pow2 e \<le> x" and "x < pow2 (e + 1)"
  shows "float_exponent x = e"
proof -
  let ?f = "float_exponent x"
  have b: "pow2 ?f \<le> x" "x < pow2 (?f + 1)"
    using float_exponent_bounds[OF assms(1)] by simp_all
  have "pow2 ?f < pow2 (e + 1)" using b(1) assms(3) by simp
  then have "?f < e + 1" by (rule pow2_less_cancel)
  moreover have "pow2 e < pow2 (?f + 1)" using b(2) assms(2) by simp
  then have "e < ?f + 1" by (rule pow2_less_cancel)
  ultimately show ?thesis by simp
qed

lemma round_nearest_zero [simp]: "round_nearest 0 = 0"
  by (simp add: round_nearest_def)

lemma round_nearest_pos:
  assumes "0 < x"
  shows "round_nearest x
      = of_int (round_half_even (x / pow2 (max (float_exponent x - 52) (- 1074))))
          * pow2 (max (float_exponent x - 52) (- 1074))"
proof -
  have ax: "\<bar>x\<bar> = x" using assms by (rule abs_of_pos)
  have sx: "sgn x = 1" using assms by (simp only: sgn_pos)
  have nx: "x \<noteq> 0" using assms by linarith
  show ?thesis
    unfolding round_nearest_def Let_def by (simp only: ax sx nx if_False mult_1)
qed

lemma round_nearest_minus: "round_nearest (- x) = - round_nearest x"
  by (simp add: round_nearest_def Let_def sgn_minus)

lemma round_nearest_nonneg: "0 \<le> x \<Longrightarrow> 0 \<le> round_nearest x"
proof (cases "x = 0")
  case True
  then show ?thesis by simp
next
  case False
  assume "0 \<le> x"
  then have x: "0 < x" using False by simp
  let ?e = "max (float_exponent x - 52) (- 1074)"
  have "0 \<le> x / pow2 ?e" using pow2_pos[of ?e] x by simp
  then have "0 \<le> round_half_even (x / pow2 ?e)" by (rule round_half_even_nonneg)
  then have "(0::rat) \<le> of_int (round_half_even (x / pow2 ?e)) * pow2 ?e"
    using pow2_pos[of ?e] by simp
  then show ?thesis using round_nearest_pos[OF x] by simp
qed

section \<open>Numbers that a double holds exactly\<close>

lemma float_exponent_nonneg:
  assumes "1 \<le> x"
  shows "0 \<le> float_exponent x"
proof -
  have x: "0 < x" using assms by simp
  have "x < pow2 (float_exponent x + 1)" using float_exponent_bounds[OF x] by simp
  then have "pow2 0 < pow2 (float_exponent x + 1)" using assms by (simp add: pow2_def)
  then have "0 < float_exponent x + 1" by (rule pow2_less_cancel)
  then show ?thesis by simp
qed

lemma round_nearest_le_twice:
  assumes "1 \<le> x"
  shows "round_nearest x \<le> 2 * x"
proof -
  have x: "0 < x" using assms by simp
  let ?fe = "float_exponent x"
  have fe0: "0 \<le> ?fe" using assms by (rule float_exponent_nonneg)
  then have mx: "max (?fe - 52) (- 1074) = ?fe - 52" by simp
  let ?e = "?fe - 52"
  let ?m = "x / pow2 ?e"
  have lo: "pow2 ?fe \<le> x" using float_exponent_bounds[OF x] by simp
  have pe: "pow2 ?e = pow2 ?fe / 2 ^ 52"
    using pow2_diff[of ?fe 52] pow2_nat[of 52] by simp
  have ep: "0 < pow2 ?e" by (rule pow2_pos)
  have "pow2 ?e \<le> x" using lo pe pow2_pos[of ?fe] by (simp add: field_simps)
  then have m1: "1 \<le> ?m" using ep by (simp add: pos_le_divide_eq)
  have "of_int (round_half_even ?m) \<le> ?m + 1 / 2" by (rule round_half_even_upper)
  then have "of_int (round_half_even ?m) \<le> 2 * ?m" using m1 by linarith
  then have "of_int (round_half_even ?m) * pow2 ?e \<le> 2 * ?m * pow2 ?e"
    using ep by (simp only: mult_le_cancel_right) simp
  moreover have "2 * ?m * pow2 ?e = 2 * x"
  proof -
    have "pow2 ?e \<noteq> 0" using ep by simp
    then show ?thesis by simp
  qed
  ultimately have "of_int (round_half_even ?m) * pow2 ?e \<le> 2 * x"
    by (simp only:)
  moreover have "round_nearest x = of_int (round_half_even ?m) * pow2 ?e"
    using round_nearest_pos[OF x] by (simp only: mx)
  ultimately show ?thesis by simp
qed

lemma round_nearest_ge_pow2:
  assumes "pow2 k \<le> x" and "0 \<le> k"
  shows "pow2 k \<le> round_nearest x"
proof -
  have x: "0 < x" using assms(1) pow2_pos[of k] by linarith
  let ?fe = "float_exponent x"
  have "pow2 k < pow2 (?fe + 1)" using float_exponent_bounds[OF x] assms(1) by simp
  then have "k < ?fe + 1" by (rule pow2_less_cancel)
  then have kf: "k \<le> ?fe" by simp
  then have mx: "max (?fe - 52) (- 1074) = ?fe - 52" using assms(2) by simp
  let ?e = "?fe - 52"
  let ?m = "x / pow2 ?e"
  have ep: "0 < pow2 ?e" by (rule pow2_pos)
  have pe: "pow2 ?fe = pow2 ?e * 2 ^ 52"
    using pow2_add[of ?e 52] pow2_nat[of 52] by simp
  have lo: "pow2 ?fe \<le> x" using float_exponent_bounds[OF x] by simp
  then have "pow2 ?e * 2 ^ 52 \<le> x" by (simp only: pe)
  then have "2 ^ 52 \<le> ?m" using ep by (simp add: pos_le_divide_eq mult.commute)
  then have "(of_int (2 ^ 52) :: rat) \<le> ?m" by simp
  then have "2 ^ 52 \<le> \<lfloor>?m\<rfloor>" by (simp only: le_floor_iff)
  then have "2 ^ 52 \<le> round_half_even ?m"
    using round_half_even_lower[of ?m] by linarith
  then have "(of_int (2 ^ 52) :: rat) \<le> of_int (round_half_even ?m)"
    by (simp only: of_int_le_iff)
  then have "(2 ^ 52 :: rat) * pow2 ?e \<le> of_int (round_half_even ?m) * pow2 ?e"
    using ep by simp
  then have "pow2 ?fe \<le> of_int (round_half_even ?m) * pow2 ?e"
    by (simp only: pe mult.commute)
  moreover have "pow2 k \<le> pow2 ?fe" using kf by (rule pow2_mono)
  moreover have "round_nearest x = of_int (round_half_even ?m) * pow2 ?e"
    using round_nearest_pos[OF x] by (simp only: mx)
  ultimately show ?thesis by simp
qed

lemma round_nearest_scaled_pos:
  assumes "0 < n" and "n < 2 ^ 53" and "- 1074 \<le> j"
  shows "round_nearest (of_int n * pow2 j) = of_int n * pow2 j"
proof -
  let ?x = "of_int n * pow2 j :: rat"
  have x: "0 < ?x" using assms(1) pow2_pos[of j] by simp
  let ?fe = "float_exponent ?x"
  let ?e = "max (?fe - 52) (- 1074)"
  have lo: "pow2 ?fe \<le> ?x" using float_exponent_bounds[OF x] by simp
  have "(of_int n :: rat) < of_int (2 ^ 53)" using assms(2) by (simp only: of_int_less_iff)
  then have "(of_int n :: rat) < pow2 53" using pow2_nat[of 53] by simp
  then have "?x < pow2 53 * pow2 j" using pow2_pos[of j] by simp
  then have "pow2 ?fe < pow2 (53 + j)" using lo by (simp add: pow2_add)
  then have fe: "?fe < 53 + j" by (rule pow2_less_cancel)
  have ej: "?e \<le> j" using fe assms(3) by simp
  define k where "k = nat (j - ?e)"
  have e: "?e = j - int k" using ej by (simp add: k_def)
  have pe: "pow2 ?e = pow2 j / 2 ^ k"
    by (subst e) (simp add: pow2_diff pow2_nat)
  have jp: "pow2 j \<noteq> 0" using pow2_pos[of j] by simp
  have m: "?x / pow2 ?e = of_int (n * 2 ^ k)"
    using jp by (simp add: pe)
  have "round_nearest ?x = of_int (round_half_even (?x / pow2 ?e)) * pow2 ?e"
    by (rule round_nearest_pos[OF x])
  also have "\<dots> = of_int (n * 2 ^ k) * pow2 ?e"
    by (simp only: m round_half_even_of_int)
  also have "\<dots> = of_int (n * 2 ^ k) * (pow2 j / 2 ^ k)"
    by (simp only: pe)
  also have "\<dots> = ?x" by simp
  finally show ?thesis .
qed

lemma round_nearest_scaled:
  assumes "\<bar>n\<bar> < 2 ^ 53" and "- 1074 \<le> j"
  shows "round_nearest (of_int n * pow2 j) = of_int n * pow2 j"
proof (cases "n = 0")
  case True
  then show ?thesis by simp
next
  case False
  show ?thesis
  proof (cases "0 < n")
    case True
    then show ?thesis using round_nearest_scaled_pos[of n j] assms by simp
  next
    case False
    then have "0 < - n" "- n < 2 ^ 53" using \<open>n \<noteq> 0\<close> assms(1) by simp_all
    then have "round_nearest (of_int (- n) * pow2 j) = of_int (- n) * pow2 j"
      using assms(2) by (rule round_nearest_scaled_pos)
    then have "round_nearest (- (of_int n * pow2 j)) = - (of_int n * pow2 j)" by simp
    then show ?thesis by (simp only: round_nearest_minus neg_equal_iff_equal)
  qed
qed

lemma round_nearest_of_int:
  assumes "\<bar>n\<bar> < 2 ^ 53"
  shows "round_nearest (of_int n) = of_int n"
  using round_nearest_scaled[OF assms, of 0] by (simp add: pow2_def)

subsection \<open>Rounding within the range of the doubles\<close>

lemma round_double_finite:
  assumes "\<bar>round_nearest x\<bar> < pow2 1024"
  shows "round_double x = Finite (round_nearest x)"
proof -
  have "round_nearest x < pow2 1024" "- pow2 1024 < round_nearest x"
    using assms by (simp_all add: abs_less_iff)
  then show ?thesis by (simp add: round_double_def Let_def not_le)
qed

lemma round_double_exact:
  assumes "round_nearest x = x" and "\<bar>x\<bar> < pow2 1024"
  shows "round_double x = Finite x"
  using round_double_finite[of x] assms by simp

lemma pow2_53_1024: "(2::rat) ^ 53 < pow2 1024"
proof -
  have "pow2 53 < pow2 1024" 
    using pow2_mono[of 54 1024] pow2_pos[of 53] pow2_add[of 53 1] by (simp add: pow2_def)
  then show ?thesis using pow2_nat[of 53] by simp
qed

lemma round_double_scaled:
  assumes "\<bar>n\<bar> < 2 ^ 53" and "- 1074 \<le> j" and "j \<le> 0"
  shows "round_double (of_int n * pow2 j) = Finite (of_int n * pow2 j)"
proof (rule round_double_exact)
  show "round_nearest (of_int n * pow2 j) = of_int n * pow2 j"
    using assms(1,2) by (rule round_nearest_scaled)
  have "(of_int \<bar>n\<bar> :: rat) < of_int (2 ^ 53)" using assms(1) by (simp only: of_int_less_iff)
  then have n: "\<bar>of_int n :: rat\<bar> < 2 ^ 53" by simp
  have "pow2 j \<le> pow2 0" using assms(3) by (rule pow2_mono)
  then have j: "pow2 j \<le> 1" by (simp add: pow2_def)
  have "\<bar>of_int n * pow2 j :: rat\<bar> = \<bar>of_int n\<bar> * pow2 j"
    using pow2_pos[of j] by (simp add: abs_mult)
  also have "\<dots> \<le> \<bar>of_int n\<bar> * 1"
    using j by (intro mult_left_mono) simp_all
  finally have "\<bar>of_int n * pow2 j :: rat\<bar> < 2 ^ 53" using n by simp
  then show "\<bar>of_int n * pow2 j :: rat\<bar> < pow2 1024" using pow2_53_1024 by linarith
qed

lemma round_double_of_int:
  assumes "\<bar>n\<bar> < 2 ^ 53"
  shows "round_double (of_int n) = Finite (of_int n)"
  using round_double_scaled[OF assms, of 0] by (simp add: pow2_def)

lemma round_double_numeral:
  "numeral w < (2::int) ^ 53 \<Longrightarrow> round_double (numeral w) = Finite (numeral w)"
  using round_double_of_int[of "numeral w"] by simp

lemma round_double_zero [simp]: "round_double 0 = Finite 0"
  using round_double_of_int[of 0] by simp

lemma round_double_one [simp]: "round_double 1 = Finite 1"
  using round_double_of_int[of 1] by simp

subsection \<open>The conversion of an int\<close>

lemma float_of_int_exact:
  "\<bar>n\<bar> < 2 ^ 53 \<Longrightarrow> float_of_int n = Inr (Finite (of_int n))"
  by (simp add: float_of_int_def round_double_of_int)

lemma round_nearest_int_bound:
  assumes "\<bar>n\<bar> < 2 ^ 1023"
  shows "\<bar>round_nearest (of_int n)\<bar> < pow2 1024"
proof -
  have pos: "\<bar>round_nearest (of_int m)\<bar> < pow2 1024" if m: "0 \<le> m" "m < 2 ^ 1023" for m :: int
  proof (cases "m = 0")
    case True
    then show ?thesis using pow2_pos[of 1024] by simp
  next
    case False
    then have m1: "(1::rat) \<le> of_int m" using m(1) by simp
    have "(of_int m :: rat) < of_int (2 ^ 1023)" using m(2) by (simp only: of_int_less_iff)
    then have "(of_int m :: rat) < pow2 1023" using pow2_nat[of 1023] by simp
    then have "2 * (of_int m :: rat) < pow2 1023 * pow2 1" by (simp add: pow2_def)
    then have "2 * (of_int m :: rat) < pow2 1024" using pow2_add[of 1023 1] by simp
    then have "round_nearest (of_int m) < pow2 1024"
      using round_nearest_le_twice[OF m1] by linarith
    moreover have "0 \<le> round_nearest (of_int m :: rat)"
      using m(1) by (intro round_nearest_nonneg) simp
    ultimately show ?thesis by simp
  qed
  show ?thesis
  proof (cases "0 \<le> n")
    case True
    then show ?thesis using pos[of n] assms by simp
  next
    case False
    then have "\<bar>round_nearest (of_int (- n))\<bar> < pow2 1024" using pos[of "- n"] assms by simp
    then show ?thesis by (simp add: round_nearest_minus)
  qed
qed

lemma float_of_int_finite:
  "\<bar>n\<bar> < 2 ^ 1023 \<Longrightarrow> float_of_int n = Inr (Finite (round_nearest (of_int n)))"
  by (simp add: float_of_int_def round_double_finite round_nearest_int_bound)

lemma float_of_int_overflow:
  assumes "2 ^ 1024 \<le> n"
  shows "float_of_int n = Inl OverflowError"
proof -
  have "(of_int (2 ^ 1024) :: rat) \<le> of_int n" using assms by (simp only: of_int_le_iff)
  then have "pow2 1024 \<le> of_int n" using pow2_nat[of 1024] by simp
  then have "pow2 1024 \<le> round_nearest (of_int n)" by (rule round_nearest_ge_pow2) simp
  then show ?thesis by (simp add: float_of_int_def round_double_def Let_def)
qed

subsection \<open>A quarter of a reorder level\<close>

lemma quarter_exact:
  assumes "\<bar>r\<bar> < 2 ^ 53"
  shows "int_mul_float r (Finite (1 / 4)) = Inr (Finite (of_int r / 4))"
proof -
  have p: "pow2 (- 2) = 1 / 4" by (simp add: pow2_def)
  have "round_double (of_int r * pow2 (- 2)) = Finite (of_int r * pow2 (- 2))"
    using assms by (rule round_double_scaled) simp_all
  then have "round_double (of_int r * (1 / 4)) = Finite (of_int r * (1 / 4))"
    by (simp only: p)
  then show ?thesis
    using float_of_int_exact[OF assms] by (simp add: int_mul_float_def)
qed

lemma quarter_returns:
  assumes "\<bar>r\<bar> < 2 ^ 1023"
  shows "\<exists>t. int_mul_float r (Finite (1 / 4)) = Inr t"
  using float_of_int_finite[OF assms] by (simp add: int_mul_float_def)

section \<open>The stock level buckets\<close>

lemma stock_level_returns:
  assumes "parses_int p ''quantity''" and "parses_int p ''reorder_level''"
    and "\<bar>field_int p ''reorder_level''\<bar> < 2 ^ 1023"
  shows "\<exists>l. stock_level p = Inr l"
proof -
  obtain t where "int_mul_float (field_int p ''reorder_level'') (Finite (1 / 4)) = Inr t"
    using quarter_returns[OF assms(3)] by blast
  then show ?thesis
    using assms(1,2) by (simp add: stock_level_def int_field_parsed)
qed

lemma distribution_loop_levels:
  "\<forall>p \<in> set ps. \<exists>l. stock_level p = Inr l \<Longrightarrow>
   distribution_loop ps b =
     Inr \<lparr>critical = critical b @ filter (\<lambda>p. stock_level p = Inr Critical) ps,
          low = low b @ filter (\<lambda>p. stock_level p = Inr Low) ps,
          normal = normal b @ filter (\<lambda>p. stock_level p = Inr Normal) ps,
          high = high b @ filter (\<lambda>p. stock_level p = Inr High) ps\<rparr>"
proof (induction ps arbitrary: b)
  case Nil
  then show ?case by simp
next
  case (Cons p ps)
  obtain l where l: "stock_level p = Inr l" using Cons.prems by auto
  have rest: "\<forall>p \<in> set ps. \<exists>l. stock_level p = Inr l" using Cons.prems by simp
  obtain qty where q: "int_field p ''quantity'' = Inr qty"
    using l by (cases "int_field p ''quantity''") (simp_all add: stock_level_def)
  obtain reorder where r: "int_field p ''reorder_level'' = Inr reorder"
    using l q by (cases "int_field p ''reorder_level''") (simp_all add: stock_level_def)
  show ?case
  proof (cases "qty = 0")
    case True
    then have "stock_level p = Inr Critical" by (simp add: stock_level_def q r)
    then show ?thesis
      using True by (simp add: q r Cons.IH[OF rest])
  next
    case False
    obtain t where t: "int_mul_float reorder (Finite (1 / 4)) = Inr t"
      using l q r False
      by (cases "int_mul_float reorder (Finite (1 / 4))") (simp_all add: stock_level_def)
    have s: "stock_level p = Inr (if int_le_float qty t then Critical
                              else if qty \<le> reorder then Low
                              else if qty \<le> reorder * 2 then Normal
                              else High)"
      using False by (simp add: stock_level_def q r t)
    show ?thesis
      using False by (simp add: q r t s Cons.IH[OF rest])
  qed
qed

lemma quarter_le_iff: "((of_int q :: rat) \<le> (1 / 4) * of_int r) = (4 * q \<le> r)"
proof -
  have "((of_int q :: rat) \<le> (1 / 4) * of_int r) = ((of_int (4 * q) :: rat) \<le> of_int r)"
    by (simp add: mult.commute)
  then show ?thesis by (simp only: of_int_le_iff)
qed

lemma quarter_less_iff: "((1 / 4) * of_int r < (of_int q :: rat)) = (r < 4 * q)"
  using quarter_le_iff[of q r] by linarith

lemma stock_level_exact:
  assumes "parses_int p ''quantity''" and "parses_int p ''reorder_level''"
    and "\<bar>field_int p ''reorder_level''\<bar> < 2 ^ 53"
  shows "stock_level p =
     Inr (if field_int p ''quantity'' = 0 then Critical
          else if 4 * field_int p ''quantity'' \<le> field_int p ''reorder_level'' then Critical
          else if field_int p ''quantity'' \<le> field_int p ''reorder_level'' then Low
          else if field_int p ''quantity'' \<le> field_int p ''reorder_level'' * 2 then Normal
          else High)"
proof -
  have "(of_int (field_int p ''quantity'') :: rat) \<le> of_int (field_int p ''reorder_level'') / 4
      \<longleftrightarrow> 4 * field_int p ''quantity'' \<le> field_int p ''reorder_level''"
    using quarter_le_iff[of "field_int p ''quantity''" "field_int p ''reorder_level''"] by simp
  then show ?thesis
    using assms(1,2) quarter_exact[OF assms(3)]
    by (simp add: stock_level_def int_field_parsed)
qed

lemma level_iff:
  assumes "parses_int p ''quantity''" and "parses_int p ''reorder_level''"
    and "0 \<le> field_int p ''reorder_level''" and "field_int p ''reorder_level'' < 2 ^ 53"
  shows "(stock_level p = Inr Critical \<longleftrightarrow> is_critical p)
       \<and> (stock_level p = Inr Low \<longleftrightarrow> is_low p)
       \<and> (stock_level p = Inr Normal \<longleftrightarrow> is_normal p)
       \<and> (stock_level p = Inr High \<longleftrightarrow> is_high p)"
proof -
  have b: "\<bar>field_int p ''reorder_level''\<bar> < 2 ^ 53" using assms(3,4) by simp
  show ?thesis
    unfolding stock_level_exact[OF assms(1,2) b] is_critical_def is_low_def is_normal_def
      is_high_def quarter_le_iff quarter_less_iff
    using assms(3) by auto
qed

lemma level_lengths:
  "\<forall>p \<in> set recs. \<exists>l. stock_level p = Inr l \<Longrightarrow>
   length (filter (\<lambda>p. stock_level p = Inr Critical) recs)
     + length (filter (\<lambda>p. stock_level p = Inr Low) recs)
     + length (filter (\<lambda>p. stock_level p = Inr Normal) recs)
     + length (filter (\<lambda>p. stock_level p = Inr High) recs) = length recs"
proof (induction recs)
  case Nil
  then show ?case by simp
next
  case (Cons p ps)
  obtain l where l: "stock_level p = Inr l" using Cons.prems by auto
  have "length (filter (\<lambda>p. stock_level p = Inr Critical) ps)
     + length (filter (\<lambda>p. stock_level p = Inr Low) ps)
     + length (filter (\<lambda>p. stock_level p = Inr Normal) ps)
     + length (filter (\<lambda>p. stock_level p = Inr High) ps) = length ps"
    using Cons by simp
  then show ?case using l by (cases l) simp_all
qed

lemma int_field_more_examples:
  "int_field rec_P001 ''reorder_level'' = Inr 5"
  "int_field rec_P002 ''reorder_level'' = Inr 5"
  "int_field rec_sold_out ''quantity'' = Inr 0"
  "int_field rec_sold_out ''reorder_level'' = Inr 5"
  "int_field rec_no_reorder ''quantity'' = Inr 4"
  "int_field rec_no_reorder ''reorder_level'' = Inr 0"
  by (simp_all add: rec_P001_def rec_P002_def rec_sold_out_def rec_no_reorder_def
      int_field_def getitem_def py_int_def
      strip_with_def is_space_def parse_digits_def is_digit_def digit_val_def)

subsection \<open>Reorder levels beyond the exact range of a double\<close>

lemma parse_zeros:
  "parse_digits_after acc cnt (replicate n CHR ''0'') = Some (acc * 10 ^ n, cnt + n)"
proof (induction n arbitrary: acc cnt)
  case 0
  then show ?case by simp
next
  case (Suc n)
  show ?case
  proof (cases n)
    case 0
    then show ?thesis by (simp add: is_digit_def digit_val_def)
  next
    case (Suc m)
    have "parse_digits_after acc cnt (CHR ''0'' # CHR ''0'' # replicate m CHR ''0'')
        = parse_digits_after (10 * acc) (Suc cnt) (CHR ''0'' # replicate m CHR ''0'')"
      by (simp add: is_digit_def digit_val_def)
    then show ?thesis
      using Suc.IH[of "10 * acc" "Suc cnt"] Suc by simp
  qed
qed

lemma int_field_huge:
  "int_field rec_huge_reorder ''quantity'' = Inr 1"
  "int_field rec_huge_reorder ''reorder_level'' = Inr (2 * 10 ^ 308)"
proof -
  show "int_field rec_huge_reorder ''quantity'' = Inr 1"
    by (simp add: rec_huge_reorder_def int_field_def getitem_def py_int_def
        strip_with_def is_space_def parse_digits_def is_digit_def digit_val_def)
  have s: "strip_with is_space (CHR ''2'' # replicate 308 CHR ''0'') = CHR ''2'' # replicate 308 CHR ''0''"
  proof -
    have z: "\<not> is_space CHR ''0''" "\<not> is_space CHR ''2''" by (simp_all add: is_space_def)
    have "dropWhile is_space (rev (CHR ''2'' # replicate 308 CHR ''0''))
        = rev (CHR ''2'' # replicate 308 CHR ''0'')"
      using z by (intro dropWhile_eq_self_iff[THEN iffD2]) (simp add: hd_append hd_rev last_replicate)
    then show ?thesis using z by (simp add: strip_with_def)
  qed
  have "py_int (CHR ''2'' # replicate 308 CHR ''0'') = Some (2 * 10 ^ 308)"
    unfolding py_int_def s
    by (simp add: parse_digits_def parse_zeros is_digit_def digit_val_def)
  then show "int_field rec_huge_reorder ''reorder_level'' = Inr (2 * 10 ^ 308)"
    by (simp add: rec_huge_reorder_def int_field_def getitem_def)
qed

lemma huge_overflows: "float_of_int (2 * 10 ^ 308) = Inl OverflowError"
  by (rule float_of_int_overflow) simp

lemma distribution_loop_overflow:
  assumes "int_field p ''quantity'' = Inr qty" and "qty \<noteq> 0"
    and "int_field p ''reorder_level'' = Inr reorder"
    and "float_of_int reorder = Inl OverflowError"
  shows "distribution_loop (p # ps) b = Inl OverflowError"
  using assms by (simp add: int_mul_float_def)

lemma int_field_quarter:
  "int_field rec_quarter ''quantity'' = Inr 9007199254740993"
  "int_field rec_quarter ''reorder_level'' = Inr 36028797018963972"
  by (simp_all add: rec_quarter_def int_field_def getitem_def py_int_def
      strip_with_def is_space_def parse_digits_def is_digit_def digit_val_def)

lemma round_nearest_eval:
  assumes "0 < x" and "pow2 e \<le> x" and "x < pow2 (e + 1)" and "- 1022 \<le> e"
  shows "round_nearest x = of_int (round_half_even (x / pow2 (e - 52))) * pow2 (e - 52)"
proof -
  have "max (e - 52) (- 1074) = e - 52" using assms(4) by simp
  then show ?thesis
    using round_nearest_pos[OF assms(1)] by (simp only: float_exponent_unique[OF assms(1-3)])
qed

lemma round_nearest_quarter_tie: "round_nearest 36028797018963972 = 36028797018963968"
proof -
  have "round_nearest 36028797018963972
      = of_int (round_half_even (36028797018963972 / pow2 (55 - 52))) * pow2 (55 - 52)"
    by (rule round_nearest_eval) (simp_all add: pow2_def)
  also have "\<dots> = 36028797018963968"
  proof -
    have f: "\<lfloor>(36028797018963972 :: rat) / 8\<rfloor> = 4503599627370496"
      by (rule floor_unique) simp_all
    have p: "pow2 (55 - 52) = 8" by (simp add: pow2_def)
    show ?thesis
      unfolding p round_half_even_def Let_def f by simp
  qed
  finally show ?thesis .
qed

lemma quarter_rounded:
  "int_mul_float 36028797018963972 (Finite (1 / 4)) = Inr (Finite 9007199254740992)"
proof -
  have "\<bar>round_nearest 36028797018963972\<bar> < pow2 1024"
    using round_nearest_int_bound[of 36028797018963972] by simp
  then have "round_double 36028797018963972 = Finite 36028797018963968"
    using round_double_finite[of 36028797018963972] by (simp add: round_nearest_quarter_tie)
  then have f: "float_of_int 36028797018963972 = Inr (Finite 36028797018963968)"
    by (simp add: float_of_int_def)
  have "round_double (of_int 1 * pow2 53) = Finite (of_int 1 * pow2 53)"
  proof (rule round_double_exact)
    show "round_nearest (of_int 1 * pow2 53) = of_int 1 * pow2 53"
      by (rule round_nearest_scaled) simp_all
    show "\<bar>of_int 1 * pow2 53 :: rat\<bar> < pow2 1024"
      using pow2_53_1024 by (simp add: pow2_nat[of 53, simplified])
  qed
  then have "round_double 9007199254740992 = Finite 9007199254740992"
    by (simp add: pow2_def)
  then show ?thesis by (simp add: int_mul_float_def f)
qed

section \<open>Values and the sort of the ranking\<close>

lemma value_of_parts:
  assumes "value_of p = Inr v"
  obtains qty price where "int_field p ''quantity'' = Inr qty"
    and "float_field p ''unit_price'' = Inr price" and "int_mul_float qty price = Inr v"
proof -
  obtain qty where q: "int_field p ''quantity'' = Inr qty"
    using assms by (cases "int_field p ''quantity''") (simp_all add: value_of_def)
  obtain price where u: "float_field p ''unit_price'' = Inr price"
    using assms q by (cases "float_field p ''unit_price''") (simp_all add: value_of_def)
  have "int_mul_float qty price = Inr v" using assms q u by (simp add: value_of_def)
  then show ?thesis using q u that by blast
qed

lemma has_value_value: "has_value p \<Longrightarrow> value_of p = Inr (record_value p)"
  by (simp add: has_value_def record_value_def split: sum.splits)

lemma ordered_has_value: "ordered_value p \<Longrightarrow> has_value p"
  by (simp add: ordered_value_def has_value_def split: sum.splits)

lemma ordered_not_nan: "ordered_value p \<Longrightarrow> record_value p \<noteq> NaN"
  by (simp add: ordered_value_def record_value_def split: sum.splits)

lemma value_loop_values:
  "\<forall>p \<in> set ps. has_value p \<Longrightarrow> value_loop ps acc = Inr (acc @ with_values ps)"
proof (induction ps arbitrary: acc)
  case Nil
  then show ?case by (simp add: with_values_def)
next
  case (Cons p ps)
  have "value_of p = Inr (record_value p)" using Cons.prems by (simp add: has_value_value)
  then obtain qty price where f: "int_field p ''quantity'' = Inr qty"
    "float_field p ''unit_price'' = Inr price" "int_mul_float qty price = Inr (record_value p)"
    by (rule value_of_parts)
  have "value_loop ps (acc @ [(p, record_value p)])
      = Inr ((acc @ [(p, record_value p)]) @ with_values ps)"
    using Cons.prems by (intro Cons.IH) simp
  then show ?case by (simp add: f with_values_def)
qed

subsection \<open>The order of the doubles that are not NaN\<close>

lemma float_lt_neq: "float_lt a b \<Longrightarrow> a \<noteq> b"
  by (cases a; cases b) simp_all

lemma not_float_lt_le: "a \<noteq> NaN \<Longrightarrow> b \<noteq> NaN \<Longrightarrow> \<not> float_lt a b \<Longrightarrow> float_le b a"
  by (cases a; cases b) (auto simp: float_le_def float_eq_def)

lemma float_lt_le: "float_lt a b \<Longrightarrow> float_le a b"
  by (simp add: float_le_def)

lemma float_le_trans: "float_le a b \<Longrightarrow> float_le b c \<Longrightarrow> float_le a c"
  by (cases a; cases b; cases c) (auto simp: float_le_def float_eq_def)

subsection \<open>The stable sort\<close>

lemma mset_insert_sorted: "mset (insert_sorted key x ys) = add_mset x (mset ys)"
  by (induction ys) simp_all

lemma set_insert_sorted: "set (insert_sorted key x ys) = insert x (set ys)"
  by (induction ys) auto

lemma mset_stable_sort: "mset (stable_sort key xs) = mset xs"
  by (induction xs) (simp_all add: mset_insert_sorted)

lemma set_stable_sort: "set (stable_sort key xs) = set xs"
  by (induction xs) (simp_all add: set_insert_sorted)

lemma sorted_insert_sorted:
  assumes "key x \<noteq> NaN" and "\<forall>y \<in> set ys. key y \<noteq> NaN"
    and "sorted_wrt (\<lambda>a b. float_le (key a) (key b)) ys"
  shows "sorted_wrt (\<lambda>a b. float_le (key a) (key b)) (insert_sorted key x ys)"
  using assms(2,3)
proof (induction ys)
  case Nil
  then show ?case by simp
next
  case (Cons y ys)
  show ?case
  proof (cases "float_lt (key y) (key x)")
    case True
    have "sorted_wrt (\<lambda>a b. float_le (key a) (key b)) (insert_sorted key x ys)"
      using Cons by simp
    moreover have "\<forall>z \<in> set (insert_sorted key x ys). float_le (key y) (key z)"
      using True Cons.prems(2) by (auto simp: set_insert_sorted float_lt_le)
    ultimately show ?thesis using True by simp
  next
    case False
    have xy: "float_le (key x) (key y)"
      using False assms(1) Cons.prems(1) by (intro not_float_lt_le) simp_all
    have "\<forall>z \<in> set ys. float_le (key x) (key z)"
      using xy Cons.prems(2) by (auto intro: float_le_trans)
    then show ?thesis using False xy Cons.prems(2) by simp
  qed
qed

lemma sorted_stable_sort:
  "\<forall>x \<in> set xs. key x \<noteq> NaN \<Longrightarrow>
   sorted_wrt (\<lambda>a b. float_le (key a) (key b)) (stable_sort key xs)"
  by (induction xs) (simp_all add: sorted_insert_sorted set_stable_sort)

lemma filter_insert_sorted:
  "filter (\<lambda>y. key y = v) (insert_sorted key x ys)
     = (if key x = v then x # filter (\<lambda>y. key y = v) ys else filter (\<lambda>y. key y = v) ys)"
  by (induction ys) (auto dest: float_lt_neq)

lemma filter_stable_sort:
  "filter (\<lambda>y. key y = v) (stable_sort key xs) = filter (\<lambda>y. key y = v) xs"
  by (induction xs) (simp_all add: filter_insert_sorted)

lemma sort_reverse_mset: "mset (sort_reverse k xs) = mset xs"
  by (simp add: sort_reverse_def mset_stable_sort)

lemma sort_reverse_sorted:
  assumes "\<forall>x \<in> set xs. k x \<noteq> NaN"
  shows "sorted_wrt (\<lambda>a b. float_le (k b) (k a)) (sort_reverse k xs)"
proof -
  have "sorted_wrt (\<lambda>a b. float_le (k a) (k b)) (stable_sort k (rev xs))"
    using assms by (intro sorted_stable_sort) simp
  then show ?thesis
    by (simp add: sort_reverse_def sorted_wrt_rev)
qed

lemma sort_reverse_stable:
  "filter (\<lambda>x. k x = v) (sort_reverse k xs) = filter (\<lambda>x. k x = v) xs"
  by (simp add: sort_reverse_def rev_filter[symmetric] filter_stable_sort)

subsection \<open>The printed table\<close>

lemma print_rows_table:
  "\<forall>x \<in> set xs. has_id (fst x) \<and> has_name (fst x) \<and> map_of (fst x) ''quantity'' \<noteq> None \<Longrightarrow>
   print_rows xs i printed = Inr (printed @ table_from i xs)"
proof (induction xs arbitrary: i printed)
  case Nil
  then show ?case by simp
next
  case (Cons x xs)
  obtain p v where x: "x = (p, v)" by (cases x)
  obtain pid name quantity where g: "map_of p ''product_id'' = Some pid"
    "map_of p ''product_name'' = Some name" "map_of p ''quantity'' = Some quantity"
    using Cons.prems x by (auto simp: has_id_def has_name_def)
  have rest: "\<forall>x \<in> set xs. has_id (fst x) \<and> has_name (fst x) \<and> map_of (fst x) ''quantity'' \<noteq> None"
    using Cons.prems by simp
  show ?case
    by (simp add: x g getitem_def text_field_def Cons.IH[OF rest])
qed

lemma table_from_append:
  "table_from i (xs @ ys) = table_from i xs @ table_from (i + int (length xs)) ys"
proof (induction xs arbitrary: i)
  case Nil
  then show ?case by simp
next
  case (Cons x xs)
  obtain p v where x: "x = (p, v)" by (cases x)
  show ?case by (simp add: x Cons.IH add.assoc)
qed

lemma has_value_quantity: "has_value p \<Longrightarrow> map_of p ''quantity'' \<noteq> None"
  by (auto simp: has_value_def value_of_def int_field_def getitem_def split: sum.splits option.splits)

subsection \<open>Example values\<close>

lemma float_field_examples:
  "float_field rec_P001 ''unit_price'' = Inr (Finite 100)"
  "float_field rec_P002 ''unit_price'' = Inr (Finite 50)"
  "float_field rec_P006 ''unit_price'' = Inr (Finite 200)"
  by (simp_all add: rec_P001_def rec_P002_def rec_P006_def float_field_def getitem_def py_float_def
      parse_float_body_def py_lower_def lower_char_def
      strip_with_def is_space_def parse_decimal_def is_exp_mark_def parse_mantissa_def
      parse_digits_def is_digit_def digit_val_def round_double_numeral)

lemma int_field_P006: "int_field rec_P006 ''quantity'' = Inr 5"
  by (simp add: rec_P006_def int_field_def getitem_def py_int_def
      strip_with_def is_space_def parse_digits_def is_digit_def digit_val_def)

lemma float_of_int_numeral:
  "numeral w < (2::int) ^ 53 \<Longrightarrow> float_of_int (numeral w) = Inr (Finite (numeral w))"
  using float_of_int_exact[of "numeral w"] by simp

lemma value_of_examples:
  "value_of rec_P001 = Inr (Finite 1000)" "value_of rec_P002 = Inr (Finite 250)"
  "value_of rec_P006 = Inr (Finite 1000)"
  by (simp_all add: value_of_def int_field_examples int_field_P006 float_field_examples
      int_mul_float_def float_of_int_numeral round_double_numeral)

lemma record_value_examples:
  "record_value rec_P001 = Finite 1000" "record_value rec_P002 = Finite 250"
  "record_value rec_P006 = Finite 1000"
  by (simp_all add: record_value_def value_of_examples)

section \<open>Sums without rounding\<close>

lemma adds_exactlyE:
  assumes "adds_exactly a b"
  obtains x y where "a = Finite x" and "b = Finite y" and "float_add a b = Finite (x + y)"
  using assms by (cases a; cases b) (simp_all add: adds_exactly_def)

lemma rat_of_Finite [simp]: "rat_of (Finite x) = x"
  by (simp add: rat_of_def)

lemma sum_exactly_fold:
  "sum_exactly (Finite a) vs \<Longrightarrow>
   foldl float_add (Finite a) vs = Finite (a + sum_list (map rat_of vs))"
proof (induction vs arbitrary: a)
  case Nil
  then show ?case by simp
next
  case (Cons v vs)
  have e: "adds_exactly (Finite a) v" and r: "sum_exactly (float_add (Finite a) v) vs"
    using Cons.prems by simp_all
  obtain x y where xy: "Finite a = Finite x" "v = Finite y"
    "float_add (Finite a) v = Finite (x + y)"
    using e by (rule adds_exactlyE)
  have s: "float_add (Finite a) v = Finite (a + y)" using xy by simp
  have "foldl float_add (Finite (a + y)) vs = Finite (a + y + sum_list (map rat_of vs))"
    using r s by (intro Cons.IH) simp
  then show ?case using s xy(2) by (simp add: add.assoc)
qed

lemma total_value_loop_fold:
  "\<forall>p \<in> set ps. has_value p \<Longrightarrow>
   total_value_loop ps tot = Inr (foldl float_add tot (map record_value ps))"
proof (induction ps arbitrary: tot)
  case Nil
  then show ?case by simp
next
  case (Cons p ps)
  have "value_of p = Inr (record_value p)" using Cons.prems by (simp add: has_value_value)
  then obtain qty price where f: "int_field p ''quantity'' = Inr qty"
    "float_field p ''unit_price'' = Inr price" "int_mul_float qty price = Inr (record_value p)"
    by (rule value_of_parts)
  have "total_value_loop ps (float_add tot (record_value p))
      = Inr (foldl float_add (float_add tot (record_value p)) (map record_value ps))"
    using Cons.prems by (intro Cons.IH) simp
  then show ?case by (simp add: f)
qed

lemma exact_total_Cons: "exact_total (p # ps) = rat_of (record_value p) + exact_total ps"
  by (simp add: exact_total_def)

lemma exact_total_map: "sum_list (map rat_of (map record_value ps)) = exact_total ps"
  by (simp add: exact_total_def comp_def)

section \<open>The category summary without rounding\<close>

lemma summary_total_update:
  "distinct (map fst sm) \<Longrightarrow>
   summary_total (AList.update c st sm) =
     summary_total sm
       - (case map_of sm c of None \<Rightarrow> 0 | Some old \<Rightarrow> rat_of (total_value old))
       + rat_of (total_value st)"
proof (induction sm)
  case Nil
  then show ?case by (simp add: summary_total_def)
next
  case (Cons e sm)
  obtain k v where e: "e = (k, v)" by (cases e)
  show ?case
  proof (cases "k = c")
    case True
    then show ?thesis by (simp add: e summary_total_def)
  next
    case False
    then show ?thesis using Cons by (simp add: e summary_total_def)
  qed
qed

lemma category_summary_loop_exact:
  assumes "\<forall>p \<in> set ps. has_category p \<and> has_value p"
    and "distinct (map fst sm)"
    and "\<forall>c. sum_exactly (case map_of sm c of None \<Rightarrow> Finite 0 | Some st \<Rightarrow> total_value st)
               (map record_value (filter (in_category c) ps))"
  shows "\<exists>sm'. category_summary_loop ps sm = Inr sm' \<and> distinct (map fst sm')
     \<and> summary_total sm' = summary_total sm + exact_total ps"
  using assms
proof (induction ps arbitrary: sm)
  case Nil
  then show ?case by (simp add: exact_total_def)
next
  case (Cons p ps)
  obtain c where c: "map_of p ''category'' = Some c"
    using Cons.prems(1) by (auto simp: has_category_def)
  have gc: "getitem p ''category'' = Inr c" using c by (simp add: getitem_def)
  have inc: "in_category c p" using c by (simp add: in_category_def)
  have other: "\<not> in_category d p" if "d \<noteq> c" for d
    using that c by (simp add: in_category_def)
  have "value_of p = Inr (record_value p)" using Cons.prems(1) by (simp add: has_value_value)
  then obtain qty price where f: "int_field p ''quantity'' = Inr qty"
    "float_field p ''unit_price'' = Inr price" "int_mul_float qty price = Inr (record_value p)"
    by (rule value_of_parts)
  define st where "st = (case map_of sm c of None \<Rightarrow> new_stats | Some st \<Rightarrow> st)"
  define old where "old = (case map_of sm c of None \<Rightarrow> Finite 0 | Some st \<Rightarrow> total_value st)"
  have old_st: "total_value st = old"
    by (simp add: old_def st_def new_stats_def split: option.splits)
  have "sum_exactly old (map record_value (filter (in_category c) (p # ps)))"
    using Cons.prems(3) unfolding old_def by blast
  then have ex: "adds_exactly old (record_value p)"
    and rest_c: "sum_exactly (float_add old (record_value p))
                   (map record_value (filter (in_category c) ps))"
    using inc by simp_all
  obtain x y where xy: "old = Finite x" "record_value p = Finite y"
    "float_add old (record_value p) = Finite (x + y)"
    using ex by (rule adds_exactlyE)
  define st' where "st' = \<lparr>count = count st + 1,
      total_quantity = total_quantity st + qty,
      total_value = float_add old (record_value p)\<rparr>"
  define sm1 where "sm1 = AList.update c st' sm"
  have run: "category_summary_loop (p # ps) sm = category_summary_loop ps sm1"
    by (simp add: gc f Let_def sm1_def st'_def old_st[symmetric] st_def)
  have d1: "distinct (map fst sm1)"
    using Cons.prems(2) by (simp add: sm1_def distinct_update)
  have old_rat: "(case map_of sm c of None \<Rightarrow> 0 | Some prev \<Rightarrow> rat_of (total_value prev)) = x"
    using xy(1) by (simp add: old_def split: option.splits)
  have t1: "summary_total sm1 = summary_total sm + y"
    using summary_total_update[OF Cons.prems(2), of c st'] old_rat xy(3)
    by (simp add: sm1_def st'_def)
  have h1: "\<forall>d. sum_exactly (case map_of sm1 d of None \<Rightarrow> Finite 0 | Some st \<Rightarrow> total_value st)
               (map record_value (filter (in_category d) ps))"
  proof
    fix d
    show "sum_exactly (case map_of sm1 d of None \<Rightarrow> Finite 0 | Some st \<Rightarrow> total_value st)
               (map record_value (filter (in_category d) ps))"
    proof (cases "d = c")
      case True
      then show ?thesis using rest_c by (simp add: sm1_def update_conv' st'_def)
    next
      case False
      have "sum_exactly (case map_of sm d of None \<Rightarrow> Finite 0 | Some st \<Rightarrow> total_value st)
               (map record_value (filter (in_category d) (p # ps)))"
        using Cons.prems(3) by blast
      then show ?thesis using False other[OF False] by (simp add: sm1_def update_conv')
    qed
  qed
  have rest: "\<forall>p \<in> set ps. has_category p \<and> has_value p" using Cons.prems(1) by simp
  obtain sm' where r: "category_summary_loop ps sm1 = Inr sm'" "distinct (map fst sm')"
    "summary_total sm' = summary_total sm1 + exact_total ps"
    using Cons.IH[OF rest d1 h1] by auto
  show ?case
    using r run t1 xy(2) by (simp add: exact_total_Cons add.assoc)
qed

lemma category_total_value_exact:
  assumes "totals_add_exactly sm"
  shows "category_total_value sm = Finite (summary_total sm)"
proof -
  have "foldl float_add (Finite 0) (map (\<lambda>(c, st). total_value st) sm)
      = Finite (0 + sum_list (map rat_of (map (\<lambda>(c, st). total_value st) sm)))"
    using assms unfolding totals_add_exactly_def by (rule sum_exactly_fold)
  moreover have "map rat_of (map (\<lambda>(c, st). total_value st) sm)
      = map (\<lambda>(c, st). rat_of (total_value st)) sm"
    by (induction sm) auto
  ultimately show ?thesis
    by (simp only: category_total_value_def summary_total_def add_0)
qed

lemma category_sums_exact:
  assumes "list_all (\<lambda>p. sum_exactly (Finite 0)
             (map record_value (filter (in_category (text_field p ''category'')) recs))) recs"
    and "\<forall>p \<in> set recs. has_category p"
  shows "sum_exactly (Finite 0) (map record_value (filter (in_category c) recs))"
proof (cases "\<exists>p \<in> set recs. in_category c p")
  case True
  then obtain p where p: "p \<in> set recs" "in_category c p" by blast
  then have "text_field p ''category'' = c" by (simp add: in_category_def text_field_def)
  then show ?thesis using assms(1) p(1) by (auto simp: list_all_iff)
next
  case False
  then have "filter (in_category c) recs = []" by (simp add: filter_empty_conv)
  then show ?thesis by simp
qed

section \<open>A sum that rounds\<close>

lemma round_double_int_exact:
  assumes "round_nearest (of_int n) = of_int n" and "\<bar>n\<bar> < 2 ^ 1023"
  shows "round_double (of_int n) = Finite (of_int n)"
  using round_double_finite[of "of_int n"] round_nearest_int_bound[OF assms(2)] assms(1) by simp

lemma round_double_tie: "round_double 10000000000000001 = Finite 10000000000000000"
proof -
  have "round_nearest 10000000000000001
      = of_int (round_half_even (10000000000000001 / pow2 (53 - 52))) * pow2 (53 - 52)"
    by (rule round_nearest_eval) (simp_all add: pow2_def)
  also have "\<dots> = 10000000000000000"
  proof -
    have f: "\<lfloor>(10000000000000001 :: rat) / 2\<rfloor> = 5000000000000000"
      by (rule floor_unique) simp_all
    have p: "pow2 (53 - 52) = 2" by (simp add: pow2_def)
    show ?thesis
      unfolding p round_half_even_def Let_def f by simp
  qed
  finally have r: "round_nearest 10000000000000001 = 10000000000000000" .
  have "\<bar>round_nearest 10000000000000001\<bar> < pow2 1024"
    using round_nearest_int_bound[of 10000000000000001] by simp
  then show ?thesis
    using round_double_finite[of 10000000000000001] by (simp add: r)
qed

lemma round_double_big: "round_double 10000000000000000 = Finite 10000000000000000"
proof -
  have "round_nearest (of_int 152587890625 * pow2 16) = of_int 152587890625 * pow2 16"
    by (rule round_nearest_scaled) simp_all
  then have "round_nearest (of_int 10000000000000000) = of_int 10000000000000000"
    by (simp add: pow2_def)
  then show ?thesis
    using round_double_int_exact[of 10000000000000000] by simp
qed

lemma round_double_big2: "round_double 10000000000000002 = Finite 10000000000000002"
proof -
  have "round_nearest (of_int 5000000000000001 * pow2 1) = of_int 5000000000000001 * pow2 1"
    by (rule round_nearest_scaled) simp_all
  then have "round_nearest (of_int 10000000000000002) = of_int 10000000000000002"
    by (simp add: pow2_def)
  then show ?thesis
    using round_double_int_exact[of 10000000000000002] by simp
qed

lemma rounding_fields:
  "int_field rec_big ''quantity'' = Inr 1"
  "int_field rec_unit_a ''quantity'' = Inr 1"
  "int_field rec_unit_b ''quantity'' = Inr 1"
  by (simp_all add: rec_big_def rec_unit_a_def rec_unit_b_def int_field_def getitem_def py_int_def
      strip_with_def is_space_def parse_digits_def is_digit_def digit_val_def)

lemma rounding_prices:
  "float_field rec_big ''unit_price'' = Inr (Finite 10000000000000000)"
  "float_field rec_unit_a ''unit_price'' = Inr (Finite 1)"
  "float_field rec_unit_b ''unit_price'' = Inr (Finite 1)"
  by (simp_all add: rec_big_def rec_unit_a_def rec_unit_b_def float_field_def getitem_def py_float_def
      parse_float_body_def py_lower_def lower_char_def
      strip_with_def is_space_def parse_decimal_def is_exp_mark_def parse_mantissa_def
      parse_digits_def is_digit_def digit_val_def round_double_big)

lemma rounding_categories:
  "getitem rec_big ''category'' = Inr ''Machines''"
  "getitem rec_unit_a ''category'' = Inr ''Parts''"
  "getitem rec_unit_b ''category'' = Inr ''Parts''"
  by (simp_all add: rec_big_def rec_unit_a_def rec_unit_b_def getitem_def)

lemma rounding_products:
  "int_mul_float 1 (Finite 10000000000000000) = Inr (Finite 10000000000000000)"
  "int_mul_float 1 (Finite 1) = Inr (Finite 1)"
  using float_of_int_exact[of 1]
  by (simp_all add: int_mul_float_def round_double_big)

section \<open>Sums with a price of a half\<close>

lemma round_double_half:
  assumes "\<bar>n\<bar> < 2 ^ 53"
  shows "round_double (of_int n / 2) = Finite (of_int n / 2)"
proof -
  have p: "pow2 (- 1) = 1 / 2" by (simp add: pow2_def)
  have "round_double (of_int n * pow2 (- 1)) = Finite (of_int n * pow2 (- 1))"
    using assms by (rule round_double_scaled) simp_all
  then show ?thesis by (simp add: p)
qed

lemma round_double_halves:
  "round_double (1 / 2) = Finite (1 / 2)" "round_double (3 / 2) = Finite (3 / 2)"
  "round_double (503 / 2) = Finite (503 / 2)" "round_double (2503 / 2) = Finite (2503 / 2)"
  using round_double_half[of 1] round_double_half[of 3] round_double_half[of 503]
    round_double_half[of 2503]
  by simp_all

lemma half_fields:
  "int_field rec_half ''quantity'' = Inr 3"
  "float_field rec_half ''unit_price'' = Inr (Finite (1 / 2))"
  "getitem rec_half ''category'' = Inr ''Accessories''"
  by (simp_all add: rec_half_def int_field_def getitem_def py_int_def float_field_def py_float_def
      parse_float_body_def py_lower_def lower_char_def
      strip_with_def is_space_def parse_decimal_def is_exp_mark_def parse_mantissa_def
      parse_digits_def is_digit_def digit_val_def round_double_halves)

lemma value_of_half: "value_of rec_half = Inr (Finite (3 / 2))"
  by (simp add: value_of_def half_fields int_mul_float_def float_of_int_numeral
      round_double_halves)

section \<open>A value that is not a number\<close>

text \<open>
  A price beyond the largest double reads as infinity, and with the quantity 0 the value
  of the record is NaN, which compares unequal to itself and is not ordered with any
  number. The total of a store with such a record is NaN. The properties of the sums and
  of the ranking below are stated for stores without such a record.
\<close>

lemma round_double_overflow:
  assumes "pow2 1024 \<le> x"
  shows "round_double x = PInf"
proof -
  have "pow2 1024 \<le> round_nearest x" using assms by (rule round_nearest_ge_pow2) simp
  then show ?thesis by (simp add: round_double_def Let_def)
qed

lemma float_field_no_stock: "float_field rec_no_stock ''unit_price'' = Inr PInf"
proof -
  have "round_double (10 ^ 309) = PInf"
    by (rule round_double_overflow) (simp add: pow2_def)
  then show ?thesis
    by (simp add: rec_no_stock_def float_field_def getitem_def py_float_def
        parse_float_body_def py_lower_def lower_char_def
        strip_with_def is_space_def parse_decimal_def is_exp_mark_def parse_mantissa_def
        parse_signed_def parse_digits_def is_digit_def digit_val_def pow10_def)
qed

lemma value_of_no_stock: "value_of rec_no_stock = Inr NaN"
proof -
  have "int_field rec_no_stock ''quantity'' = Inr 0"
    by (simp add: rec_no_stock_def int_field_def getitem_def py_int_def
        strip_with_def is_space_def parse_digits_def is_digit_def digit_val_def)
  then show ?thesis
    using float_of_int_exact[of 0]
    by (simp add: value_of_def float_field_no_stock int_mul_float_def)
qed

lemma no_stock_not_ordered:
  "\<not> ordered_value rec_no_stock"
  "get_total_inventory_value [rec_no_stock] = Inr NaN"
  "\<not> float_eq NaN NaN"
proof -
  show "\<not> ordered_value rec_no_stock" by (simp add: ordered_value_def value_of_no_stock)
  have "has_value rec_no_stock" by (simp add: has_value_def value_of_no_stock)
  then have "total_value_loop [rec_no_stock] (Finite 0)
      = Inr (foldl float_add (Finite 0) (map record_value [rec_no_stock]))"
    by (intro total_value_loop_fold) simp
  then show "get_total_inventory_value [rec_no_stock] = Inr NaN"
    by (simp add: get_total_inventory_value_def record_value_def value_of_no_stock)
  show "\<not> float_eq NaN NaN" by (simp add: float_eq_def)
qed

section \<open>The stock distribution is a partition\<close>

text \<open>
  Claim C5 as stated does not hold for every store. The threshold of the critical bucket is
  the float product \<^verbatim>\<open>reorder * 0.25\<close>, and the reorder level is converted to a float to
  compute it. A record with the quantity 1 and a reorder level of \<open>2 * 10^308\<close> is beyond
  the largest double: the conversion raises OverflowError and the method returns no
  buckets. A record with the quantity \<open>2^53 + 1\<close> and the reorder level \<open>2^55 + 4\<close> satisfies
  \<open>q \<le> 0.25 r\<close>, the condition of the critical bucket, but the reorder level rounds to
  \<open>2^55\<close>, the threshold is \<open>2^53\<close>, and the record is put into the low bucket.
\<close>

theorem stock_distribution_float_counterexample:
  "show_stock_distribution [rec_huge_reorder] = Inl OverflowError
   \<and> show_stock_distribution [rec_quarter]
        = Inr \<lparr>critical = [], low = [rec_quarter], normal = [], high = []\<rparr>
   \<and> is_critical rec_quarter"
proof (intro conjI)
  show "show_stock_distribution [rec_huge_reorder] = Inl OverflowError"
    unfolding show_stock_distribution_def
    by (rule distribution_loop_overflow[OF int_field_huge(1) _ int_field_huge(2) huge_overflows])
       simp
  show "show_stock_distribution [rec_quarter]
        = Inr \<lparr>critical = [], low = [rec_quarter], normal = [], high = []\<rparr>"
    by (simp add: show_stock_distribution_def int_field_quarter quarter_rounded)
  have "field_int rec_quarter ''quantity'' = 9007199254740993"
    "field_int rec_quarter ''reorder_level'' = 36028797018963972"
    by (simp_all add: field_int_def int_field_quarter)
  then show "is_critical rec_quarter"
    by (simp add: is_critical_def)
qed

text \<open>
  Claim C5, amended. For a store whose quantities and reorder levels are integers, with
  reorder levels below \<open>2^1023\<close> in magnitude, \<^verbatim>\<open>show_stock_distribution\<close> returns four lists
  that are pairwise disjoint, together hold every record, and whose lengths add up to the
  length of the store. With a reorder level of 0 a positive quantity is high and the
  quantity 0 is critical. Where the reorder levels are not negative and below \<open>2^53\<close>, the
  lists are the records that satisfy the four conditions of the specification, in store
  order: critical is \<open>q = 0\<close> or \<open>q \<le> 0.25 r\<close>, low is \<open>0.25 r < q \<le> r\<close>, normal is
  \<open>r < q \<le> 2 r\<close>, high is \<open>q > 2 r\<close>, with \<open>0.25 r\<close> the exact quarter.
\<close>

theorem stock_distribution_partition:
  assumes "\<forall>p \<in> set recs. parses_int p ''quantity'' \<and> parses_int p ''reorder_level''
             \<and> \<bar>field_int p ''reorder_level''\<bar> < 2 ^ 1023"
  shows "\<exists>b. show_stock_distribution recs = Inr b
      \<and> set (critical b) \<union> set (low b) \<union> set (normal b) \<union> set (high b) = set recs
      \<and> set (critical b) \<inter> set (low b) = {} \<and> set (critical b) \<inter> set (normal b) = {}
      \<and> set (critical b) \<inter> set (high b) = {} \<and> set (low b) \<inter> set (normal b) = {}
      \<and> set (low b) \<inter> set (high b) = {} \<and> set (normal b) \<inter> set (high b) = {}
      \<and> length (critical b) + length (low b) + length (normal b) + length (high b) = length recs
      \<and> (\<forall>p \<in> set recs. field_int p ''reorder_level'' = 0 \<longrightarrow>
            (0 < field_int p ''quantity'' \<longrightarrow> p \<in> set (high b))
            \<and> (field_int p ''quantity'' = 0 \<longrightarrow> p \<in> set (critical b)))
      \<and> ((\<forall>p \<in> set recs. 0 \<le> field_int p ''reorder_level''
              \<and> field_int p ''reorder_level'' < 2 ^ 53) \<longrightarrow>
            critical b = filter is_critical recs \<and> low b = filter is_low recs
            \<and> normal b = filter is_normal recs \<and> high b = filter is_high recs)"
proof -
  let ?b = "\<lparr>critical = filter (\<lambda>p. stock_level p = Inr Critical) recs,
             low = filter (\<lambda>p. stock_level p = Inr Low) recs,
             normal = filter (\<lambda>p. stock_level p = Inr Normal) recs,
             high = filter (\<lambda>p. stock_level p = Inr High) recs\<rparr>"
  have lv: "\<forall>p \<in> set recs. \<exists>l. stock_level p = Inr l"
    using assms stock_level_returns by blast
  have run: "show_stock_distribution recs = Inr ?b"
    using distribution_loop_levels[OF lv] by (simp add: show_stock_distribution_def)
  have un: "set (critical ?b) \<union> set (low ?b) \<union> set (normal ?b) \<union> set (high ?b) = set recs"
  proof -
    have "\<And>p. p \<in> set recs \<Longrightarrow> stock_level p = Inr Critical \<or> stock_level p = Inr Low
            \<or> stock_level p = Inr Normal \<or> stock_level p = Inr High"
      using lv by (metis level.exhaust)
    then show ?thesis by auto
  qed
  have dj: "set (critical ?b) \<inter> set (low ?b) = {}" "set (critical ?b) \<inter> set (normal ?b) = {}"
    "set (critical ?b) \<inter> set (high ?b) = {}" "set (low ?b) \<inter> set (normal ?b) = {}"
    "set (low ?b) \<inter> set (high ?b) = {}" "set (normal ?b) \<inter> set (high ?b) = {}"
    by auto
  have len: "length (critical ?b) + length (low ?b) + length (normal ?b) + length (high ?b) = length recs"
    using level_lengths[OF lv] by simp
  have zero: "\<forall>p \<in> set recs. field_int p ''reorder_level'' = 0 \<longrightarrow>
            (0 < field_int p ''quantity'' \<longrightarrow> p \<in> set (high ?b))
            \<and> (field_int p ''quantity'' = 0 \<longrightarrow> p \<in> set (critical ?b))"
  proof (intro ballI impI conjI)
    fix p assume p: "p \<in> set recs" and r: "field_int p ''reorder_level'' = 0"
    have pq: "parses_int p ''quantity''" and pr: "parses_int p ''reorder_level''"
      using assms p by simp_all
    have b: "\<bar>field_int p ''reorder_level''\<bar> < 2 ^ 53" using r by simp
    note s = stock_level_exact[OF pq pr b]
    show "p \<in> set (high ?b)" if "0 < field_int p ''quantity''"
      using that p r by (simp add: s)
    show "p \<in> set (critical ?b)" if "field_int p ''quantity'' = 0"
      using that p by (simp add: s)
  qed
  have spec: "(\<forall>p \<in> set recs. 0 \<le> field_int p ''reorder_level''
              \<and> field_int p ''reorder_level'' < 2 ^ 53) \<longrightarrow>
            critical ?b = filter is_critical recs \<and> low ?b = filter is_low recs
            \<and> normal ?b = filter is_normal recs \<and> high ?b = filter is_high recs"
  proof
    assume r0: "\<forall>p \<in> set recs. 0 \<le> field_int p ''reorder_level''
              \<and> field_int p ''reorder_level'' < 2 ^ 53"
    have "\<And>p. p \<in> set recs \<Longrightarrow>
        (stock_level p = Inr Critical \<longleftrightarrow> is_critical p)
        \<and> (stock_level p = Inr Low \<longleftrightarrow> is_low p)
        \<and> (stock_level p = Inr Normal \<longleftrightarrow> is_normal p)
        \<and> (stock_level p = Inr High \<longleftrightarrow> is_high p)"
      using r0 assms level_iff by blast
    then show "critical ?b = filter is_critical recs \<and> low ?b = filter is_low recs
            \<and> normal ?b = filter is_normal recs \<and> high ?b = filter is_high recs"
      by (simp cong: filter_cong)
  qed
  show ?thesis
    using run un dj len zero spec by (intro exI[of _ ?b]) simp
qed

text \<open>
  Four records: 10 on a reorder level of 5 is normal, 5 on 5 is low, 0 on 5 is critical and
  4 on a reorder level of 0 is high.
\<close>

theorem stock_distribution_partition_witness:
  "parses_int rec_P001 ''quantity'' \<and> parses_int rec_P001 ''reorder_level''
   \<and> \<bar>field_int rec_P001 ''reorder_level''\<bar> < 2 ^ 1023
   \<and> 0 \<le> field_int rec_P001 ''reorder_level'' \<and> field_int rec_P001 ''reorder_level'' < 2 ^ 53
   \<and> parses_int rec_P002 ''quantity'' \<and> parses_int rec_P002 ''reorder_level''
   \<and> \<bar>field_int rec_P002 ''reorder_level''\<bar> < 2 ^ 1023
   \<and> 0 \<le> field_int rec_P002 ''reorder_level'' \<and> field_int rec_P002 ''reorder_level'' < 2 ^ 53
   \<and> parses_int rec_sold_out ''quantity'' \<and> parses_int rec_sold_out ''reorder_level''
   \<and> \<bar>field_int rec_sold_out ''reorder_level''\<bar> < 2 ^ 1023
   \<and> 0 \<le> field_int rec_sold_out ''reorder_level''
   \<and> field_int rec_sold_out ''reorder_level'' < 2 ^ 53
   \<and> parses_int rec_no_reorder ''quantity'' \<and> parses_int rec_no_reorder ''reorder_level''
   \<and> \<bar>field_int rec_no_reorder ''reorder_level''\<bar> < 2 ^ 1023
   \<and> 0 \<le> field_int rec_no_reorder ''reorder_level''
   \<and> field_int rec_no_reorder ''reorder_level'' < 2 ^ 53
   \<and> show_stock_distribution [rec_P001, rec_P002, rec_sold_out, rec_no_reorder]
        = Inr \<lparr>critical = [rec_sold_out], low = [rec_P002], normal = [rec_P001],
               high = [rec_no_reorder]\<rparr>"
proof -
  note iv = int_field_examples int_field_more_examples
  have p: "parses_int rec_P001 ''quantity''" "parses_int rec_P001 ''reorder_level''"
    "parses_int rec_P002 ''quantity''" "parses_int rec_P002 ''reorder_level''"
    "parses_int rec_sold_out ''quantity''" "parses_int rec_sold_out ''reorder_level''"
    "parses_int rec_no_reorder ''quantity''" "parses_int rec_no_reorder ''reorder_level''"
    by (simp_all add: parses_int_def iv)
  have f: "field_int rec_P001 ''quantity'' = 10" "field_int rec_P001 ''reorder_level'' = 5"
    "field_int rec_P002 ''quantity'' = 5" "field_int rec_P002 ''reorder_level'' = 5"
    "field_int rec_sold_out ''quantity'' = 0" "field_int rec_sold_out ''reorder_level'' = 5"
    "field_int rec_no_reorder ''quantity'' = 4" "field_int rec_no_reorder ''reorder_level'' = 0"
    by (simp_all add: field_int_def iv)
  have m: "\<bar>field_int rec_P001 ''reorder_level''\<bar> < 2 ^ 1023"
    "\<bar>field_int rec_P002 ''reorder_level''\<bar> < 2 ^ 1023"
    "\<bar>field_int rec_sold_out ''reorder_level''\<bar> < 2 ^ 1023"
    "\<bar>field_int rec_no_reorder ''reorder_level''\<bar> < 2 ^ 1023"
    by (simp_all add: f)
  have z: "0 \<le> field_int rec_P001 ''reorder_level''" "0 \<le> field_int rec_P002 ''reorder_level''"
    "0 \<le> field_int rec_sold_out ''reorder_level''" "0 \<le> field_int rec_no_reorder ''reorder_level''"
    by (simp_all add: f)
  have u: "field_int rec_P001 ''reorder_level'' < 2 ^ 53"
    "field_int rec_P002 ''reorder_level'' < 2 ^ 53"
    "field_int rec_sold_out ''reorder_level'' < 2 ^ 53"
    "field_int rec_no_reorder ''reorder_level'' < 2 ^ 53"
    by (simp_all add: f)
  have h: "\<forall>p \<in> set [rec_P001, rec_P002, rec_sold_out, rec_no_reorder].
      parses_int p ''quantity'' \<and> parses_int p ''reorder_level''
      \<and> \<bar>field_int p ''reorder_level''\<bar> < 2 ^ 1023"
    using p m by simp
  have h0: "\<forall>p \<in> set [rec_P001, rec_P002, rec_sold_out, rec_no_reorder].
      0 \<le> field_int p ''reorder_level'' \<and> field_int p ''reorder_level'' < 2 ^ 53"
    using z u by simp
  have c: "is_critical rec_sold_out" "\<not> is_critical rec_P001" "\<not> is_critical rec_P002"
    "\<not> is_critical rec_no_reorder"
    by (simp_all add: is_critical_def f)
  have l: "is_low rec_P002" "\<not> is_low rec_P001" "\<not> is_low rec_sold_out" "\<not> is_low rec_no_reorder"
    by (simp_all add: is_low_def f)
  have n: "is_normal rec_P001" "\<not> is_normal rec_P002" "\<not> is_normal rec_sold_out"
    "\<not> is_normal rec_no_reorder"
    by (simp_all add: is_normal_def f)
  have g: "is_high rec_no_reorder" "\<not> is_high rec_P001" "\<not> is_high rec_P002" "\<not> is_high rec_sold_out"
    by (simp_all add: is_high_def f)
  obtain b where b: "show_stock_distribution [rec_P001, rec_P002, rec_sold_out, rec_no_reorder] = Inr b"
    "critical b = filter is_critical [rec_P001, rec_P002, rec_sold_out, rec_no_reorder]"
    "low b = filter is_low [rec_P001, rec_P002, rec_sold_out, rec_no_reorder]"
    "normal b = filter is_normal [rec_P001, rec_P002, rec_sold_out, rec_no_reorder]"
    "high b = filter is_high [rec_P001, rec_P002, rec_sold_out, rec_no_reorder]"
    using stock_distribution_partition [OF h] h0 by blast
  have "b = \<lparr>critical = [rec_sold_out], low = [rec_P002], normal = [rec_P001], high = [rec_no_reorder]\<rparr>"
    using b(2-5) by (simp add: c l n g)
  then have r: "show_stock_distribution [rec_P001, rec_P002, rec_sold_out, rec_no_reorder]
        = Inr \<lparr>critical = [rec_sold_out], low = [rec_P002], normal = [rec_P001],
               high = [rec_no_reorder]\<rparr>"
    using b(1) by simp
  show ?thesis
    by (intro conjI p m z u r)
qed

section \<open>Category totals and the total value\<close>

text \<open>
  Claim C6 as stated does not hold: the totals are sums of doubles, and the two sums add
  the same values in different orders. In the store with one record worth \<open>10^16\<close> in the
  category Machines and two records worth 1 in the category Parts,
  \<^verbatim>\<open>get_total_inventory_value\<close> adds 1 to \<open>10^16\<close> twice and each time the result rounds back
  to \<open>10^16\<close>, while the category Parts sums to 2 and the sum over the categories is
  \<open>10^16 + 2\<close>.
\<close>

theorem category_totals_rounding_counterexample:
  "get_total_inventory_value [rec_big, rec_unit_a, rec_unit_b] = Inr (Finite 10000000000000000)
   \<and> get_category_summary [rec_big, rec_unit_a, rec_unit_b]
        = Inr [(''Machines'', \<lparr>count = 1, total_quantity = 1,
                               total_value = Finite 10000000000000000\<rparr>),
               (''Parts'', \<lparr>count = 2, total_quantity = 2, total_value = Finite 2\<rparr>)]
   \<and> category_total_value
        [(''Machines'', \<lparr>count = 1, total_quantity = 1,
                          total_value = Finite 10000000000000000\<rparr>),
         (''Parts'', \<lparr>count = 2, total_quantity = 2, total_value = Finite 2\<rparr>)]
        = Finite 10000000000000002
   \<and> \<not> float_eq (Finite 10000000000000002) (Finite 10000000000000000)"
proof (intro conjI)
  show "get_total_inventory_value [rec_big, rec_unit_a, rec_unit_b]
        = Inr (Finite 10000000000000000)"
    by (simp add: get_total_inventory_value_def rounding_fields rounding_prices
        rounding_products round_double_big round_double_tie)
  show "get_category_summary [rec_big, rec_unit_a, rec_unit_b]
        = Inr [(''Machines'', \<lparr>count = 1, total_quantity = 1,
                               total_value = Finite 10000000000000000\<rparr>),
               (''Parts'', \<lparr>count = 2, total_quantity = 2, total_value = Finite 2\<rparr>)]"
    by (simp add: get_category_summary_def rounding_categories rounding_fields rounding_prices
        rounding_products round_double_big round_double_numeral new_stats_def Let_def)
  show "category_total_value
        [(''Machines'', \<lparr>count = 1, total_quantity = 1,
                          total_value = Finite 10000000000000000\<rparr>),
         (''Parts'', \<lparr>count = 2, total_quantity = 2, total_value = Finite 2\<rparr>)]
        = Finite 10000000000000002"
    by (simp add: category_total_value_def round_double_big round_double_big2)
  show "\<not> float_eq (Finite 10000000000000002) (Finite 10000000000000000)"
    by (simp add: float_eq_def)
qed

text \<open>
  Claim C6, amended. When no addition rounds, the two totals agree: for a store whose
  records have a category and a value \<^verbatim>\<open>quantity * unit_price\<close> that can be computed, if
  every addition of the running total of the store, of the running total of each category
  and of the sum of the category totals has finite operands and an exact result, then
  \<^verbatim>\<open>get_total_inventory_value\<close> returns the exact sum of the values of the records and the
  sum over all categories of the \<^verbatim>\<open>total_value\<close> of \<^verbatim>\<open>get_category_summary\<close> is equal to it.
\<close>

theorem category_totals_agree_without_rounding:
  assumes "\<forall>p \<in> set recs. has_category p \<and> has_value p" and "no_rounding recs"
  shows "\<exists>t sm. get_total_inventory_value recs = Inr t \<and> get_category_summary recs = Inr sm
       \<and> float_eq (category_total_value sm) t \<and> t = Finite (exact_total recs)"
proof -
  have h1: "sum_exactly (Finite 0) (map record_value recs)"
    and h2: "list_all (\<lambda>p. sum_exactly (Finite 0)
               (map record_value (filter (in_category (text_field p ''category'')) recs))) recs"
    and h3: "case get_category_summary recs of Inl _ \<Rightarrow> True | Inr sm \<Rightarrow> totals_add_exactly sm"
    using assms(2) by (simp_all add: no_rounding_def)
  have hv: "\<forall>p \<in> set recs. has_value p" and hc: "\<forall>p \<in> set recs. has_category p"
    using assms(1) by simp_all
  have "get_total_inventory_value recs
      = Inr (foldl float_add (Finite 0) (map record_value recs))"
    using total_value_loop_fold[OF hv] by (simp add: get_total_inventory_value_def)
  moreover have "foldl float_add (Finite 0) (map record_value recs)
      = Finite (0 + sum_list (map rat_of (map record_value recs)))"
    using h1 by (rule sum_exactly_fold)
  ultimately have t: "get_total_inventory_value recs = Inr (Finite (exact_total recs))"
    by (simp only: exact_total_map add_0)
  have "\<forall>c. sum_exactly (case map_of ([] :: summary) c of None \<Rightarrow> Finite 0
                           | Some st \<Rightarrow> total_value st)
               (map record_value (filter (in_category c) recs))"
    using category_sums_exact[OF h2 hc] by simp
  then obtain sm where sm: "category_summary_loop recs [] = Inr sm"
    "summary_total sm = summary_total [] + exact_total recs"
    using category_summary_loop_exact[OF assms(1), of "[]"] by auto
  have g: "get_category_summary recs = Inr sm"
    using sm(1) by (simp add: get_category_summary_def)
  have "totals_add_exactly sm" using h3 g by simp
  then have "category_total_value sm = Finite (summary_total sm)"
    by (rule category_total_value_exact)
  then have "category_total_value sm = Finite (exact_total recs)"
    using sm(2) by (simp add: summary_total_def)
  then show ?thesis
    using t g by (simp add: float_eq_def)
qed

text \<open>
  The scenario of the specification with a third record: 10 at 100 in Electronics, 5 at
  50 and 3 at 0.5 in Accessories make 1251.5 both ways.
\<close>

theorem category_totals_agree_without_rounding_witness:
  "has_category rec_P001 \<and> has_value rec_P001
   \<and> has_category rec_P002 \<and> has_value rec_P002
   \<and> has_category rec_half \<and> has_value rec_half
   \<and> no_rounding [rec_P001, rec_P002, rec_half]
   \<and> get_total_inventory_value [rec_P001, rec_P002, rec_half] = Inr (Finite (2503 / 2))
   \<and> get_category_summary [rec_P001, rec_P002, rec_half]
        = Inr [(''Electronics'', \<lparr>count = 1, total_quantity = 10, total_value = Finite 1000\<rparr>),
               (''Accessories'', \<lparr>count = 2, total_quantity = 8,
                                  total_value = Finite (503 / 2)\<rparr>)]
   \<and> float_eq (category_total_value
        [(''Electronics'', \<lparr>count = 1, total_quantity = 10, total_value = Finite 1000\<rparr>),
         (''Accessories'', \<lparr>count = 2, total_quantity = 8, total_value = Finite (503 / 2)\<rparr>)])
       (Finite (2503 / 2))"
proof -
  let ?recs = "[rec_P001, rec_P002, rec_half]"
  let ?sm = "[(''Electronics'', \<lparr>count = 1, total_quantity = 10, total_value = Finite 1000\<rparr>),
              (''Accessories'', \<lparr>count = 2, total_quantity = 8, total_value = Finite (503 / 2)\<rparr>)]"
  have c: "map_of rec_P001 ''category'' = Some ''Electronics''"
    "map_of rec_P002 ''category'' = Some ''Accessories''"
    "map_of rec_half ''category'' = Some ''Accessories''"
    by (simp_all add: rec_P001_def rec_P002_def rec_half_def)
  have hc: "has_category rec_P001" "has_category rec_P002" "has_category rec_half"
    by (simp_all add: has_category_def c)
  have hv: "has_value rec_P001" "has_value rec_P002" "has_value rec_half"
    by (simp_all add: has_value_def value_of_examples value_of_half)
  have rv: "record_value rec_P001 = Finite 1000" "record_value rec_P002 = Finite 250"
    "record_value rec_half = Finite (3 / 2)"
    by (simp_all add: record_value_def value_of_examples value_of_half)
  have gc: "getitem rec_P001 ''category'' = Inr ''Electronics''"
    "getitem rec_P002 ''category'' = Inr ''Accessories''"
    by (simp_all add: getitem_def c)
  have pr: "int_mul_float 10 (Finite 100) = Inr (Finite 1000)"
    "int_mul_float 5 (Finite 50) = Inr (Finite 250)"
    "int_mul_float 3 (Finite (1 / 2)) = Inr (Finite (3 / 2))"
    by (simp_all add: int_mul_float_def float_of_int_numeral round_double_numeral
        round_double_halves)
  have g: "get_category_summary ?recs = Inr ?sm"
    by (simp add: get_category_summary_def gc half_fields int_field_examples
        float_field_examples pr round_double_numeral round_double_halves new_stats_def Let_def)
  have s1: "sum_exactly (Finite 0) (map record_value ?recs)"
    by (simp add: rv adds_exactly_def round_double_numeral round_double_halves)
  have s2: "list_all (\<lambda>p. sum_exactly (Finite 0)
               (map record_value (filter (in_category (text_field p ''category'')) ?recs))) ?recs"
    by (simp add: text_field_def in_category_def c rv adds_exactly_def round_double_numeral
        round_double_halves)
  have s3: "totals_add_exactly ?sm"
    by (simp add: totals_add_exactly_def adds_exactly_def round_double_numeral
        round_double_halves)
  have nr: "no_rounding ?recs"
    unfolding no_rounding_def g using s1 s2 s3 by simp
  have h: "\<forall>p \<in> set ?recs. has_category p \<and> has_value p"
    using hc hv by simp
  have e: "exact_total ?recs = 2503 / 2"
    by (simp add: exact_total_def rv)
  obtain t sm where T: "get_total_inventory_value ?recs = Inr t"
    "get_category_summary ?recs = Inr sm" "float_eq (category_total_value sm) t"
    "t = Finite (exact_total ?recs)"
    using category_totals_agree_without_rounding [OF h nr] by blast
  have t: "get_total_inventory_value ?recs = Inr (Finite (2503 / 2))"
    using T(1,4) e by simp
  have "sm = ?sm" using T(2) g by simp
  then have q: "float_eq (category_total_value ?sm) (Finite (2503 / 2))"
    using T(3,4) e by simp
  show ?thesis
    by (intro conjI hc hv nr t g q)
qed

section \<open>The ranking by value\<close>

text \<open>
  Claim C7 as stated does not hold for every \<open>n\<close>. The number of rows is the bound of the
  slice \<^verbatim>\<open>products_with_value[:top_n]\<close>, which nothing checks, and a negative bound counts
  from the end of the list: for the store of P001 and P002 and \<open>n = -1\<close> the method prints
  the row of P001, while for \<open>n + 1 = 0\<close> it prints no row. The list for \<open>-1\<close> is not the
  ranking cut to its first \<open>-1\<close> rows, and it is not a prefix of the list for 0.
\<close>

theorem top_by_value_negative_counterexample:
  "show_top_products_by_value [rec_P001, rec_P002] (- 1)
     = Inr [\<lparr>row_rank = 1, row_id = ''P001'', row_name = ''Laptop'', row_quantity = ''10'',
             row_value = Finite 1000\<rparr>]
   \<and> show_top_products_by_value [rec_P001, rec_P002] 0 = Inr []"
proof -
  have h: "\<forall>p \<in> set [rec_P001, rec_P002]. has_value p"
    by (simp add: has_value_def value_of_examples)
  have w: "with_values [rec_P001, rec_P002] = [(rec_P001, Finite 1000), (rec_P002, Finite 250)]"
    by (simp add: with_values_def record_value_examples)
  have v: "value_loop [rec_P001, rec_P002] [] = Inr [(rec_P001, Finite 1000), (rec_P002, Finite 250)]"
    using value_loop_values[OF h, of "[]"] by (simp add: w)
  have s: "sort_reverse snd [(rec_P001, Finite 1000), (rec_P002, Finite 250)]
             = [(rec_P001, Finite 1000), (rec_P002, Finite 250)]"
    by (simp add: sort_reverse_def)
  have g: "getitem rec_P001 ''product_id'' = Inr ''P001''"
    "getitem rec_P001 ''product_name'' = Inr ''Laptop''"
    "getitem rec_P001 ''quantity'' = Inr ''10''"
    by (simp_all add: rec_P001_def getitem_def)
  have a: "show_top_products_by_value [rec_P001, rec_P002] (- 1)
     = Inr [\<lparr>row_rank = 1, row_id = ''P001'', row_name = ''Laptop'', row_quantity = ''10'',
             row_value = Finite 1000\<rparr>]"
    unfolding show_top_products_by_value_def v by (simp add: s slice_to_def g)
  have b: "show_top_products_by_value [rec_P001, rec_P002] 0 = Inr []"
    unfolding show_top_products_by_value_def v by (simp add: s slice_to_def)
  show ?thesis by (intro conjI a b)
qed

text \<open>
  Claim C7, amended. For a store whose records have an id and a name and a value
  \<^verbatim>\<open>quantity * unit_price\<close> that can be computed and is not NaN, and for every number \<open>n\<close> of
  rows that is not negative, \<^verbatim>\<open>show_top_products_by_value\<close> prints the table of the first \<open>n\<close>
  rows of a ranking of the store's records with their values: the ranking is a rearrangement
  of the records, its values do not increase, and the records of equal value stand in it in
  their store order. The table for \<open>n\<close> is a prefix of the table for \<open>n + 1\<close>.
\<close>

theorem top_by_value_sorted_stable_prefix:
  assumes "\<forall>p \<in> set recs. has_id p \<and> has_name p \<and> ordered_value p" and "0 \<le> n"
  shows "\<exists>ranked rest.
          show_top_products_by_value recs n = Inr (table_from 1 (take (nat n) ranked))
      \<and> show_top_products_by_value recs (n + 1) = Inr (table_from 1 (take (nat n) ranked) @ rest)
      \<and> mset ranked = mset (with_values recs)
      \<and> sorted_wrt (\<lambda>a b. float_le (snd b) (snd a)) ranked
      \<and> (\<forall>v. filter (\<lambda>x. snd x = v) ranked = filter (\<lambda>x. snd x = v) (with_values recs))"
proof -
  let ?ranked = "sort_reverse snd (with_values recs)"
  have hv: "\<forall>p \<in> set recs. has_value p" using assms(1) ordered_has_value by blast
  have v: "value_loop recs [] = Inr (with_values recs)"
    using value_loop_values[OF hv, of "[]"] by simp
  have nn: "\<forall>x \<in> set (with_values recs). snd x \<noteq> NaN"
    using assms(1) ordered_not_nan by (auto simp: with_values_def)
  have keys: "\<forall>x \<in> set (with_values recs).
      has_id (fst x) \<and> has_name (fst x) \<and> map_of (fst x) ''quantity'' \<noteq> None"
    using assms(1) hv has_value_quantity by (auto simp: with_values_def)
  have sub: "set ?ranked = set (with_values recs)"
    using sort_reverse_mset[of snd "with_values recs"] by (rule mset_eq_setD)
  have pr: "print_rows (take k ?ranked) 1 [] = Inr (table_from 1 (take k ?ranked))" for k
  proof -
    have "\<forall>x \<in> set (take k ?ranked).
        has_id (fst x) \<and> has_name (fst x) \<and> map_of (fst x) ''quantity'' \<noteq> None"
      using keys sub by (auto dest: in_set_takeD)
    then show ?thesis using print_rows_table[of "take k ?ranked" 1 "[]"] by simp
  qed
  have a: "show_top_products_by_value recs n = Inr (table_from 1 (take (nat n) ?ranked))"
    using assms(2) by (simp add: show_top_products_by_value_def v slice_to_def pr)
  have n1: "nat (n + 1) = nat n + 1" using assms(2) by simp
  have "show_top_products_by_value recs (n + 1) = Inr (table_from 1 (take (nat n + 1) ?ranked))"
    using assms(2) by (simp add: show_top_products_by_value_def v slice_to_def pr n1)
  moreover have "take (nat n + 1) ?ranked = take (nat n) ?ranked @ take 1 (drop (nat n) ?ranked)"
    by (rule take_add)
  ultimately have b: "show_top_products_by_value recs (n + 1)
      = Inr (table_from 1 (take (nat n) ?ranked)
             @ table_from (1 + int (length (take (nat n) ?ranked))) (take 1 (drop (nat n) ?ranked)))"
    by (simp only: table_from_append)
  show ?thesis
    using a b sort_reverse_mset[of snd "with_values recs"]
      sort_reverse_sorted[OF nn]
      sort_reverse_stable[of snd _ "with_values recs"]
    by blast
qed

text \<open>
  P002 is worth 250, P001 and P006 are worth 1000 each: the ranking puts P001 before P006,
  as in the store, and P002 last.
\<close>

theorem top_by_value_sorted_stable_prefix_witness:
  "has_id rec_P002 \<and> has_name rec_P002 \<and> ordered_value rec_P002
   \<and> has_id rec_P001 \<and> has_name rec_P001 \<and> ordered_value rec_P001
   \<and> has_id rec_P006 \<and> has_name rec_P006 \<and> ordered_value rec_P006
   \<and> (0::int) \<le> 2
   \<and> show_top_products_by_value [rec_P002, rec_P001, rec_P006] 2
        = Inr [\<lparr>row_rank = 1, row_id = ''P001'', row_name = ''Laptop'', row_quantity = ''10'',
                row_value = Finite 1000\<rparr>,
               \<lparr>row_rank = 2, row_id = ''P006'', row_name = ''Tablet'', row_quantity = ''5'',
                row_value = Finite 1000\<rparr>]
   \<and> (\<exists>ranked rest.
          show_top_products_by_value [rec_P002, rec_P001, rec_P006] 2
            = Inr (table_from 1 (take (nat 2) ranked))
        \<and> show_top_products_by_value [rec_P002, rec_P001, rec_P006] (2 + 1)
            = Inr (table_from 1 (take (nat 2) ranked) @ rest)
        \<and> mset ranked = mset (with_values [rec_P002, rec_P001, rec_P006])
        \<and> sorted_wrt (\<lambda>a b. float_le (snd b) (snd a)) ranked)"
proof -
  have i: "has_id rec_P002" "has_id rec_P001" "has_id rec_P006"
    by (simp_all add: has_id_def rec_P001_def rec_P002_def rec_P006_def)
  have m: "has_name rec_P002" "has_name rec_P001" "has_name rec_P006"
    by (simp_all add: has_name_def rec_P001_def rec_P002_def rec_P006_def)
  have o: "ordered_value rec_P002" "ordered_value rec_P001" "ordered_value rec_P006"
    by (simp_all add: ordered_value_def value_of_examples)
  have z: "(0::int) \<le> 2" by simp
  have h: "\<forall>p \<in> set [rec_P002, rec_P001, rec_P006]. has_id p \<and> has_name p \<and> ordered_value p"
    using i m o by simp
  have hv: "\<forall>p \<in> set [rec_P002, rec_P001, rec_P006]. has_value p"
    by (simp add: has_value_def value_of_examples)
  have w: "with_values [rec_P002, rec_P001, rec_P006]
             = [(rec_P002, Finite 250), (rec_P001, Finite 1000), (rec_P006, Finite 1000)]"
    by (simp add: with_values_def record_value_examples)
  have v: "value_loop [rec_P002, rec_P001, rec_P006] []
             = Inr [(rec_P002, Finite 250), (rec_P001, Finite 1000), (rec_P006, Finite 1000)]"
    using value_loop_values[OF hv, of "[]"] by (simp add: w)
  have s: "sort_reverse snd [(rec_P002, Finite 250), (rec_P001, Finite 1000), (rec_P006, Finite 1000)]
             = [(rec_P001, Finite 1000), (rec_P006, Finite 1000), (rec_P002, Finite 250)]"
    by (simp add: sort_reverse_def)
  have g: "getitem rec_P001 ''product_id'' = Inr ''P001''"
    "getitem rec_P001 ''product_name'' = Inr ''Laptop''"
    "getitem rec_P001 ''quantity'' = Inr ''10''"
    "getitem rec_P006 ''product_id'' = Inr ''P006''"
    "getitem rec_P006 ''product_name'' = Inr ''Tablet''"
    "getitem rec_P006 ''quantity'' = Inr ''5''"
    by (simp_all add: rec_P001_def rec_P006_def getitem_def)
  have a: "show_top_products_by_value [rec_P002, rec_P001, rec_P006] 2
        = Inr [\<lparr>row_rank = 1, row_id = ''P001'', row_name = ''Laptop'', row_quantity = ''10'',
                row_value = Finite 1000\<rparr>,
               \<lparr>row_rank = 2, row_id = ''P006'', row_name = ''Tablet'', row_quantity = ''5'',
                row_value = Finite 1000\<rparr>]"
    unfolding show_top_products_by_value_def v by (simp add: s slice_to_def g)
  have c: "\<exists>ranked rest.
          show_top_products_by_value [rec_P002, rec_P001, rec_P006] 2
            = Inr (table_from 1 (take (nat 2) ranked))
        \<and> show_top_products_by_value [rec_P002, rec_P001, rec_P006] (2 + 1)
            = Inr (table_from 1 (take (nat 2) ranked) @ rest)
        \<and> mset ranked = mset (with_values [rec_P002, rec_P001, rec_P006])
        \<and> sorted_wrt (\<lambda>a b. float_le (snd b) (snd a)) ranked"
    using top_by_value_sorted_stable_prefix [OF h z] by blast
  show ?thesis
    by (intro conjI i m o z a c)
qed

end
